theory Spec2Isabelle
  imports Complex_Main "HOL-Library.Sublist"
begin

section \<open>JavaScript strings\<close>

text \<open>
  A JavaScript string is a sequence of UTF-16 code units. Every character the converter
  looks at (digits, suffix letters, the eight currency symbols, white space) is one code
  unit, so a string is modelled as the list of its code units, written as natural numbers.
  \<open>str\<close> turns an ASCII literal into such a list.
\<close>

type_synonym jsstring = "nat list"

definition str :: "string \<Rightarrow> jsstring" where
  "str s = map of_char s"

definition isDigit :: "nat \<Rightarrow> bool" where
  "isDigit c = (48 \<le> c \<and> c \<le> 57)"

text \<open>The suffix letters of the character class \<open>[KMBTkmbt]\<close>.\<close>

definition isSuffixLetter :: "nat \<Rightarrow> bool" where
  "isSuffixLetter c = (c \<in> set [75, 77, 66, 84, 107, 109, 98, 116])"

text \<open>
  The code units that \<open>String.prototype.trim\<close> removes: the WhiteSpace and
  LineTerminator productions of ECMA-262 (all of them in the Basic Multilingual Plane).
\<close>

definition isWhiteSpace :: "nat \<Rightarrow> bool" where
  "isWhiteSpace c =
     (c \<in> set [9, 10, 11, 12, 13, 32, 160, 5760, 8232, 8233, 8239, 8287, 12288, 65279]
      \<or> (8192 \<le> c \<and> c \<le> 8202))"

definition trim :: "jsstring \<Rightarrow> jsstring" where
  "trim s = rev (dropWhile isWhiteSpace (rev (dropWhile isWhiteSpace s)))"

text \<open>\<open>s.includes(t)\<close>: \<open>t\<close> occurs in \<open>s\<close> as a contiguous substring.\<close>

fun includesStr :: "jsstring \<Rightarrow> jsstring \<Rightarrow> bool" where
  "includesStr [] t = (t = [])"
| "includesStr (c # cs) t = (prefix t (c # cs) \<or> includesStr cs t)"

text \<open>\<open>parts.join(' ')\<close>.\<close>

fun join :: "jsstring list \<Rightarrow> jsstring" where
  "join [] = []"
| "join [p] = p"
| "join (p # q # ps) = p @ [32] @ join (q # ps)"

text \<open>The decimal digits of a natural number, most significant first.\<close>

fun digits :: "nat \<Rightarrow> jsstring" where
  "digits n = (if n < 10 then [48 + n] else digits (n div 10) @ [48 + n mod 10])"

declare digits.simps [simp del]

text \<open>The value of a string of decimal digits.\<close>

definition digitsValue :: "jsstring \<Rightarrow> nat" where
  "digitsValue ds = foldl (\<lambda>a c. 10 * a + (c - 48)) 0 ds"

section \<open>JavaScript numbers\<close>

text \<open>
  A Number is an IEEE 754 binary64 value: not-a-number, an infinity, or a finite value,
  held here as the rational it denotes. The two zeros are identified: no operation of the
  converter tells them apart (comparison, \<open>toString\<close> and \<open>%\<close> treat them alike and
  nothing divides by a variable).
\<close>

datatype number = NaN | PosInf | NegInf | Fin rat

text \<open>The number of binary digits of a natural number.\<close>

fun bitLength :: "nat \<Rightarrow> nat" where
  "bitLength n = (if n = 0 then 0 else Suc (bitLength (n div 2)))"

declare bitLength.simps [simp del]

text \<open>\<open>ilog2 a\<close> is the binary exponent of a positive rational: \<open>2^e \<le> a < 2^(e+1)\<close>.\<close>

definition ilog2 :: "rat \<Rightarrow> int" where
  "ilog2 a =
     (if 1 \<le> a then int (bitLength (nat \<lfloor>a\<rfloor>)) - 1
      else - int (bitLength (nat (\<lceil>1 / a\<rceil> - 1))))"

text \<open>Rounding to the nearest integer, ties to even.\<close>

definition roundHalfEven :: "rat \<Rightarrow> int" where
  "roundHalfEven y =
     (let f = \<lfloor>y\<rfloor>; r = y - of_int f
      in if r < 1 / 2 then f else if 1 / 2 < r then f + 1 else if even f then f else f + 1)"

text \<open>
  The spacing of the binary64 values around a positive rational: 53 significant bits,
  and the fixed spacing \<open>2^-1074\<close> of the subnormal range below \<open>2^-1022\<close>.
\<close>

definition ulp :: "rat \<Rightarrow> rat" where
  "ulp a = 2 powi (max (ilog2 a) (- 1022) - 52)"

text \<open>
  \<open>fl\<close> is the rounding every arithmetic operation ends with (roundTiesToEven): the
  nearest binary64 value, an infinity when the rounded magnitude reaches \<open>2^1024\<close>.
\<close>

definition fl :: "rat \<Rightarrow> number" where
  "fl q =
     (if q = 0 then Fin 0
      else let a = \<bar>q\<bar>; u = ulp a; r = of_int (roundHalfEven (a / u)) * u
           in if 2 ^ 1024 \<le> r then (if 0 < q then PosInf else NegInf)
              else Fin (if 0 < q then r else - r))"

text \<open>Multiplication \<open>x * y\<close>.\<close>

fun mulN :: "number \<Rightarrow> number \<Rightarrow> number" where
  "mulN (Fin a) (Fin b) = fl (a * b)"
| "mulN NaN _ = NaN"
| "mulN _ NaN = NaN"
| "mulN (Fin a) PosInf = (if a = 0 then NaN else if 0 < a then PosInf else NegInf)"
| "mulN (Fin a) NegInf = (if a = 0 then NaN else if 0 < a then NegInf else PosInf)"
| "mulN PosInf (Fin b) = (if b = 0 then NaN else if 0 < b then PosInf else NegInf)"
| "mulN NegInf (Fin b) = (if b = 0 then NaN else if 0 < b then NegInf else PosInf)"
| "mulN PosInf PosInf = PosInf"
| "mulN PosInf NegInf = NegInf"
| "mulN NegInf PosInf = NegInf"
| "mulN NegInf NegInf = PosInf"

text \<open>
  Division \<open>x / y\<close>. The converter only divides by the non-zero constants 10, 100, 1000,
  \<open>1e6\<close>, \<open>1e9\<close> and \<open>1e12\<close>; a zero divisor gives the infinity or NaN of a positive zero.
\<close>

fun divN :: "number \<Rightarrow> number \<Rightarrow> number" where
  "divN (Fin a) (Fin b) =
     (if b = 0 then (if a = 0 then NaN else if 0 < a then PosInf else NegInf)
      else fl (a / b))"
| "divN NaN _ = NaN"
| "divN _ NaN = NaN"
| "divN (Fin a) _ = Fin 0"
| "divN PosInf (Fin b) = (if 0 \<le> b then PosInf else NegInf)"
| "divN NegInf (Fin b) = (if 0 \<le> b then NegInf else PosInf)"
| "divN _ _ = NaN"

text \<open>
  Remainder \<open>x % y\<close>: the sign of the dividend, the quotient truncated toward zero; the
  result is exact. NaN for an infinite dividend or a zero divisor.
\<close>

text \<open>A rational is whole when it is an integer (\<open>Number.isInteger\<close>).\<close>

definition isWhole :: "rat \<Rightarrow> bool" where
  "isWhole x = (of_int \<lfloor>x\<rfloor> = x)"

definition truncToInt :: "rat \<Rightarrow> int" where
  "truncToInt q = (if 0 \<le> q then \<lfloor>q\<rfloor> else \<lceil>q\<rceil>)"

fun remN :: "number \<Rightarrow> number \<Rightarrow> number" where
  "remN (Fin a) (Fin b) = (if b = 0 then NaN else Fin (a - b * of_int (truncToInt (a / b))))"
| "remN (Fin a) PosInf = Fin a"
| "remN (Fin a) NegInf = Fin a"
| "remN _ _ = NaN"

text \<open>\<open>Math.floor\<close>, \<open>Math.abs\<close>, unary minus.\<close>

fun floorN :: "number \<Rightarrow> number" where
  "floorN (Fin a) = Fin (of_int \<lfloor>a\<rfloor>)"
| "floorN x = x"

fun absN :: "number \<Rightarrow> number" where
  "absN (Fin a) = Fin \<bar>a\<bar>"
| "absN NaN = NaN"
| "absN _ = PosInf"

fun negN :: "number \<Rightarrow> number" where
  "negN (Fin a) = Fin (- a)"
| "negN NaN = NaN"
| "negN PosInf = NegInf"
| "negN NegInf = PosInf"

text \<open>The comparisons \<open>x < y\<close> and \<open>x === y\<close>; \<open>x > y\<close> is \<open>ltN y x\<close>, \<open>x >= y\<close> is \<open>geN x y\<close>.\<close>

fun ltN :: "number \<Rightarrow> number \<Rightarrow> bool" where
  "ltN (Fin a) (Fin b) = (a < b)"
| "ltN NaN _ = False"
| "ltN _ NaN = False"
| "ltN PosInf _ = False"
| "ltN _ NegInf = False"
| "ltN _ _ = True"

fun geN :: "number \<Rightarrow> number \<Rightarrow> bool" where
  "geN NaN _ = False"
| "geN _ NaN = False"
| "geN x y = (\<not> ltN x y)"

fun strictEq :: "number \<Rightarrow> number \<Rightarrow> bool" where
  "strictEq NaN _ = False"
| "strictEq _ NaN = False"
| "strictEq x y = (x = y)"

definition isNaN :: "number \<Rightarrow> bool" where
  "isNaN x = (x = NaN)"

text \<open>Subtraction \<open>x - y\<close>.\<close>

fun subN :: "number \<Rightarrow> number \<Rightarrow> number" where
  "subN (Fin a) (Fin b) = fl (a - b)"
| "subN NaN _ = NaN"
| "subN _ NaN = NaN"
| "subN PosInf PosInf = NaN"
| "subN NegInf NegInf = NaN"
| "subN PosInf _ = PosInf"
| "subN NegInf _ = NegInf"
| "subN _ PosInf = NegInf"
| "subN _ NegInf = PosInf"

section \<open>Built-in conversions between numbers and strings\<close>

subsection \<open>\<open>parseFloat\<close>\<close>

text \<open>
  \<open>parseFloat\<close> skips leading white space and reads the longest prefix that is a
  StrDecimalLiteral: an optional sign, then \<open>Infinity\<close> or decimal digits with an optional
  fraction and an optional exponent. No such prefix gives NaN. The value is the decimal
  rounded to binary64.
\<close>

definition exponentDigits :: "jsstring \<Rightarrow> int \<Rightarrow> int" where
  "exponentDigits ds sg =
     (let e = takeWhile isDigit ds in if e = [] then 0 else sg * int (digitsValue e))"

definition exponentPart :: "jsstring \<Rightarrow> int" where
  "exponentPart r =
     (case r of
        [] \<Rightarrow> 0
      | c # r' \<Rightarrow>
          if c = 101 \<or> c = 69 then
            (case r' of
               [] \<Rightarrow> 0
             | sg # ds \<Rightarrow>
                 if sg = 43 then exponentDigits ds 1
                 else if sg = 45 then exponentDigits ds (- 1)
                 else exponentDigits r' 1)
          else 0)"

definition unsignedLiteral :: "jsstring \<Rightarrow> number option" where
  "unsignedLiteral u =
     (if prefix (str ''Infinity'') u then Some PosInf
      else
        let ip = takeWhile isDigit u;
            r1 = dropWhile isDigit u;
            hasDot = (r1 \<noteq> [] \<and> hd r1 = 46);
            fp = (if hasDot then takeWhile isDigit (tl r1) else []);
            r2 = (if hasDot then dropWhile isDigit (tl r1) else r1)
        in if ip = [] \<and> fp = [] then None
           else Some (fl ((of_nat (digitsValue ip) + of_nat (digitsValue fp) / 10 ^ length fp)
                          * 10 powi exponentPart r2)))"

definition parseFloat :: "jsstring \<Rightarrow> number" where
  "parseFloat s =
     (let t = dropWhile isWhiteSpace s;
          negative = (t \<noteq> [] \<and> hd t = 45);
          u = (if t \<noteq> [] \<and> (hd t = 45 \<or> hd t = 43) then tl t else t)
      in case unsignedLiteral u of
           None \<Rightarrow> NaN
         | Some x \<Rightarrow> if negative then negN x else x)"

subsection \<open>\<open>Number.prototype.toString\<close>\<close>

text \<open>
  The decimal exponent \<open>n\<close> of a positive rational: \<open>10^(n-1) \<le> x < 10^n\<close>.
\<close>

definition decimalExponent :: "rat \<Rightarrow> int" where
  "decimalExponent x =
     (if 1 \<le> x then int (length (digits (nat \<lfloor>x\<rfloor>)))
      else 1 - int (length (digits (nat (\<lceil>1 / x\<rceil> - 1)))))"

text \<open>
  The \<open>k\<close>-digit decimals next to \<open>x\<close> that round to \<open>x\<close>, nearest first (the even one
  first on a tie).
\<close>

definition digitCandidates :: "rat \<Rightarrow> int \<Rightarrow> int list" where
  "digitCandidates x k =
     (let e = decimalExponent x - k;
          v = x / 10 powi e;
          lo = \<lfloor>v\<rfloor>;
          d = v - of_int lo;
          ordered = (if d < 1 / 2 \<or> (d = 1 / 2 \<and> even lo) then [lo, lo + 1] else [lo + 1, lo])
      in filter (\<lambda>s. 0 < s \<and> fl (of_int s * 10 powi e) = Fin x) ordered)"

text \<open>
  The shortest digit string \<open>s\<close> and the exponent \<open>n\<close> with \<open>s * 10^(n-k)\<close> rounding to
  \<open>x\<close>, where \<open>k\<close> is the number of digits of \<open>s\<close>; seventeen digits always suffice.
\<close>

definition shortestDecimal :: "rat \<Rightarrow> jsstring \<times> int" where
  "shortestDecimal x =
     (case find (\<lambda>k. digitCandidates x k \<noteq> []) (map int [1..<18]) of
        None \<Rightarrow> (digits (nat \<lfloor>x / 10 powi (decimalExponent x - 17)\<rfloor>), decimalExponent x)
      | Some k \<Rightarrow>
          let s = hd (digitCandidates x k)
          in if s = 10 ^ nat k then (digits 1, decimalExponent x + 1)
             else (digits (nat s), decimalExponent x))"

definition positiveToString :: "rat \<Rightarrow> jsstring" where
  "positiveToString x =
     (let (ds, n) = shortestDecimal x; k = int (length ds)
      in if - 5 \<le> n \<and> n \<le> 21 then
           (if k \<le> n then ds @ replicate (nat (n - k)) 48
            else if 0 < n then take (nat n) ds @ [46] @ drop (nat n) ds
            else str ''0.'' @ replicate (nat (- n)) 48 @ ds)
         else
           (let e = n - 1;
                ex = (if 0 \<le> e then str ''e+'' else str ''e-'') @ digits (nat \<bar>e\<bar>)
            in if k = 1 then ds @ ex else take 1 ds @ [46] @ drop 1 ds @ ex))"

text \<open>
  For an integer of magnitude at most \<open>2^53\<close> the shortest decimal is the integer's own
  digit string, which is returned directly.
\<close>

definition numberToString :: "number \<Rightarrow> jsstring" where
  "numberToString x =
     (case x of
        NaN \<Rightarrow> str ''NaN''
      | PosInf \<Rightarrow> str ''Infinity''
      | NegInf \<Rightarrow> str ''-Infinity''
      | Fin q \<Rightarrow>
          (let a = \<bar>q\<bar>;
               m = (if isWhole a \<and> a \<le> 2 ^ 53 then digits (nat \<lfloor>a\<rfloor>)
                    else positiveToString a)
           in if q < 0 then str ''-'' @ m else m))"

subsection \<open>\<open>Number.prototype.toFixed\<close>\<close>

text \<open>
  \<open>x.toFixed(f)\<close> for \<open>0 \<le> f \<le> 100\<close> (the converter passes 0 or 1, so the RangeError of
  other arguments cannot arise): the integer \<open>n\<close> nearest to \<open>x * 10^f\<close>, the larger on a
  tie, printed with \<open>f\<close> digits after the point. A magnitude of \<open>1e21\<close> or more, and a
  value that is not finite, is printed as by \<open>toString\<close>.
\<close>

definition toFixed :: "number \<Rightarrow> nat \<Rightarrow> jsstring" where
  "toFixed x f =
     (case x of
        Fin q \<Rightarrow>
          (let s = (if q < 0 then str ''-'' else []);
               a = \<bar>q\<bar>
           in if 10 ^ 21 \<le> a then s @ numberToString (Fin a)
              else
                let n = nat \<lfloor>a * 10 ^ f + 1 / 2\<rfloor>;
                    m = digits n;
                    m' = (if f \<noteq> 0 then
                            (let z = replicate (Suc f - length m) 48 @ m;
                                 k = length z
                             in take (k - f) z @ [46] @ drop (k - f) z)
                          else m)
                in s @ m')
      | _ \<Rightarrow> numberToString x)"

section \<open>The converter\<close>

subsection \<open>Tables\<close>

text \<open>
  \<open>CURRENCY_MAP\<close>, in the order of its keys: dollar, euro, pound, yen, rupee, ruble, won
  and cent sign (U+0024, U+20AC, U+00A3, U+00A5, U+20B9, U+20BD, U+20A9, U+00A2).
\<close>

definition CURRENCY_MAP :: "(jsstring \<times> jsstring) list" where
  "CURRENCY_MAP =
     [([36], str ''dollars''), ([8364], str ''euros''), ([163], str ''pounds''),
      ([165], str ''yen''), ([8377], str ''rupees''), ([8381], str ''rubles''),
      ([8361], str ''won''), ([162], str ''cents'')]"

definition ONES :: "jsstring list" where
  "ONES = map str ['''', ''one'', ''two'', ''three'', ''four'', ''five'', ''six'', ''seven'',
                   ''eight'', ''nine'']"

definition TEENS :: "jsstring list" where
  "TEENS = map str [''ten'', ''eleven'', ''twelve'', ''thirteen'', ''fourteen'', ''fifteen'',
                    ''sixteen'', ''seventeen'', ''eighteen'', ''nineteen'']"

definition TENS :: "jsstring list" where
  "TENS = map str ['''', '''', ''twenty'', ''thirty'', ''forty'', ''fifty'', ''sixty'',
                   ''seventy'', ''eighty'', ''ninety'']"

definition SCALES :: "jsstring list" where
  "SCALES = map str ['''', ''thousand'', ''million'', ''billion'', ''trillion'']"

text \<open>
  \<open>table[i]\<close> inside a string concatenation: the element when \<open>i\<close> is an integer index of
  the array, otherwise \<open>undefined\<close>, which the concatenation turns into the string
  \<open>"undefined"\<close>.
\<close>

definition lookupStr :: "jsstring list \<Rightarrow> number \<Rightarrow> jsstring" where
  "lookupStr table i =
     (case i of
        Fin q \<Rightarrow>
          if isWhole q \<and> 0 \<le> q \<and> q < of_nat (length table) then table ! nat \<lfloor>q\<rfloor>
          else str ''undefined''
      | _ \<Rightarrow> str ''undefined'')"

subsection \<open>\<open>convertHundreds\<close>\<close>

text \<open>
  The function is two statements in sequence, each updating \<open>result\<close> and \<open>num\<close>.
  \<open>convertTens\<close> is the second one (the chain on \<open>num >= 20\<close>, \<open>num >= 10\<close>, \<open>num > 0\<close>),
  given the \<open>result\<close> and \<open>num\<close> that the first one left.
\<close>

definition convertTens :: "jsstring \<Rightarrow> number \<Rightarrow> jsstring" where
  "convertTens result num =
     (if geN num (Fin 20) then
        (let r = result @ lookupStr TENS (floorN (divN num (Fin 10)));
             n = remN num (Fin 10)
         in if ltN (Fin 0) n then r @ str ''-'' @ lookupStr ONES n else r)
      else if geN num (Fin 10) then result @ lookupStr TEENS (subN num (Fin 10))
      else if ltN (Fin 0) num then result @ lookupStr ONES num
      else result)"

definition convertHundreds :: "number \<Rightarrow> jsstring" where
  "convertHundreds num =
     (if geN num (Fin 100) then
        (let r = lookupStr ONES (floorN (divN num (Fin 100))) @ str '' hundred'';
             n = remN num (Fin 100)
         in convertTens (if ltN (Fin 0) n then r @ str '' '' else r) n)
      else convertTens [] num)"

subsection \<open>\<open>numberToWords\<close>\<close>

text \<open>
  One pass of the loop body up to the division: the words of a non-zero chunk are put in
  front of \<open>parts\<close> (\<open>unshift\<close>), with the scale word when \<open>scaleIndex > 0\<close>. The counter
  \<open>scaleIndex\<close> is a natural number: it counts the iterations.
\<close>

definition lookupScale :: "nat \<Rightarrow> jsstring" where
  "lookupScale i = (if i < length SCALES then SCALES ! i else str ''undefined'')"

definition unshiftChunk :: "number \<Rightarrow> nat \<Rightarrow> jsstring list \<Rightarrow> jsstring list" where
  "unshiftChunk chunk scaleIndex parts =
     (if ltN (Fin 0) chunk then
        (let chunkWords = convertHundreds chunk
         in if 0 < scaleIndex then (chunkWords @ str '' '' @ lookupScale scaleIndex) # parts
            else chunkWords # parts)
      else parts)"

text \<open>
  The \<open>while (num > 0)\<close> loop. It is a partial function: \<open>None\<close> stands for a loop that
  never exits.
\<close>

partial_function (option) wordsLoop :: "number \<Rightarrow> nat \<Rightarrow> jsstring list \<Rightarrow> jsstring list option"
  where
  "wordsLoop num scaleIndex parts =
     (if ltN (Fin 0) num then
        wordsLoop (floorN (divN num (Fin 1000))) (Suc scaleIndex)
          (unshiftChunk (remN num (Fin 1000)) scaleIndex parts)
      else Some parts)"

declare wordsLoop.simps [code]

partial_function (option) numberToWords :: "number \<Rightarrow> jsstring option" where
  "numberToWords num =
     (if strictEq num (Fin 0) then Some (str ''zero'')
      else if ltN num (Fin 0) then
        Option.bind (numberToWords (negN num)) (\<lambda>w. Some (str ''negative '' @ w))
      else Option.bind (wordsLoop num 0 []) (\<lambda>parts. Some (join parts)))"

declare numberToWords.simps [code]

subsection \<open>\<open>parseShorthand\<close>\<close>

text \<open>\<open>input.replace(/[^0-9.KMBTkmbt]/g, '')\<close>.\<close>

definition cleanShorthand :: "jsstring \<Rightarrow> jsstring" where
  "cleanShorthand input = filter (\<lambda>c. isDigit c \<or> c = 46 \<or> isSuffixLetter c) input"

text \<open>
  The match of \<open>/^(\d+\.?\d*)([KMBTkmbt]?)$/\<close>: the two groups, or \<open>None\<close> when the string
  does not match. The groups are determined by the string, since digits, the point and the
  suffix letters are disjoint.
\<close>

definition matchShorthand :: "jsstring \<Rightarrow> (jsstring \<times> jsstring) option" where
  "matchShorthand s =
     (let ds = takeWhile isDigit s;
          r1 = dropWhile isDigit s;
          hasDot = (r1 \<noteq> [] \<and> hd r1 = 46);
          r2 = (if hasDot then tl r1 else r1);
          numberPart = ds @ (if hasDot then [46] else []) @ takeWhile isDigit r2;
          r3 = dropWhile isDigit r2
      in if ds = [] then None
         else if r3 = [] then Some (numberPart, [])
         else if length r3 = 1 \<and> isSuffixLetter (hd r3) then Some (numberPart, r3)
         else None)"

definition multipliers :: "(jsstring \<times> number) list" where
  "multipliers =
     [(str ''k'', Fin 1000), (str ''K'', Fin 1000),
      (str ''m'', Fin 1000000), (str ''M'', Fin 1000000),
      (str ''b'', Fin 1000000000), (str ''B'', Fin 1000000000),
      (str ''t'', Fin 1000000000000), (str ''T'', Fin 1000000000000)]"

definition parseShorthand :: "jsstring \<Rightarrow> number option" where
  "parseShorthand input =
     (case matchShorthand (cleanShorthand input) of
        None \<Rightarrow> None
      | Some (numberPart, sfx) \<Rightarrow>
          let baseNumber = parseFloat numberPart
          in if isNaN baseNumber then None
             else
               let multiplier =
                     (if sfx \<noteq> [] then
                        (case map_of multipliers sfx of Some m \<Rightarrow> m | None \<Rightarrow> Fin 1)
                      else Fin 1)
               in Some (mulN baseNumber multiplier))"

subsection \<open>\<open>numberToShorthand\<close>\<close>

definition numberToShorthand :: "number \<Rightarrow> jsstring" where
  "numberToShorthand num =
     (if strictEq num (Fin 0) then str ''0''
      else
        let absNum = absN num;
            sign = (if ltN num (Fin 0) then str ''-'' else [])
        in if geN absNum (Fin 1000000000000) then
             sign @ toFixed (divN absNum (Fin 1000000000000))
                      (if strictEq (remN absNum (Fin 1000000000000)) (Fin 0) then 0 else 1)
               @ str ''T''
           else if geN absNum (Fin 1000000000) then
             sign @ toFixed (divN absNum (Fin 1000000000))
                      (if strictEq (remN absNum (Fin 1000000000)) (Fin 0) then 0 else 1)
               @ str ''B''
           else if geN absNum (Fin 1000000) then
             sign @ toFixed (divN absNum (Fin 1000000))
                      (if strictEq (remN absNum (Fin 1000000)) (Fin 0) then 0 else 1)
               @ str ''M''
           else if geN absNum (Fin 1000) then
             sign @ toFixed (divN absNum (Fin 1000))
                      (if strictEq (remN absNum (Fin 1000)) (Fin 0) then 0 else 1)
               @ str ''K''
           else numberToString num)"

subsection \<open>\<open>extractCurrency\<close>\<close>

definition extractCurrency :: "jsstring \<Rightarrow> jsstring option" where
  "extractCurrency input = find (\<lambda>symbol. includesStr input symbol) (map fst CURRENCY_MAP)"

subsection \<open>\<open>convertNumber\<close>\<close>

record ConversionResult =
  originalInput :: jsstring
  numericValue :: number
  shorthandForm :: jsstring
  wordsForm :: jsstring
  currency :: "jsstring option"
  isValid :: bool

text \<open>\<open>trimmedInput.replace(/[^0-9.-]/g, '')\<close>.\<close>

definition cleanNumber :: "jsstring \<Rightarrow> jsstring" where
  "cleanNumber s = filter (\<lambda>c. isDigit c \<or> c = 46 \<or> c = 45) s"

text \<open>
  The result is \<open>None\<close> when the call does not return, which is the case exactly when
  \<open>numberToWords\<close> does not.
\<close>

definition convertNumber :: "jsstring \<Rightarrow> ConversionResult option" where
  "convertNumber input =
     (let trimmedInput = trim input
      in if trimmedInput = [] then
           Some \<lparr>originalInput = input, numericValue = Fin 0, shorthandForm = str ''0'',
                 wordsForm = str ''zero'', currency = None, isValid = False\<rparr>
         else
           let cur = extractCurrency trimmedInput;
               currencyWord = (case cur of None \<Rightarrow> None | Some c \<Rightarrow> map_of CURRENCY_MAP c);
               value = (case parseShorthand trimmedInput of
                          Some v \<Rightarrow> v
                        | None \<Rightarrow> parseFloat (cleanNumber trimmedInput))
           in if isNaN value then
                Some \<lparr>originalInput = input, numericValue = Fin 0, shorthandForm = str ''0'',
                      wordsForm = str ''invalid input'', currency = cur, isValid = False\<rparr>
              else
                let shorthand =
                      (case cur of
                         Some c \<Rightarrow> c @ numberToShorthand value
                       | None \<Rightarrow> numberToShorthand value)
                in case numberToWords value of
                     None \<Rightarrow> None
                   | Some w \<Rightarrow>
                       Some \<lparr>originalInput = input, numericValue = value,
                             shorthandForm = shorthand,
                             wordsForm =
                               (case currencyWord of
                                  Some cw \<Rightarrow> w @ str '' '' @ cw
                                | None \<Rightarrow> w),
                             currency = cur, isValid = True\<rparr>)"

section \<open>Notions used in the statements\<close>

text \<open>
  The rule for a value below one thousand, in natural-number arithmetic: the hundreds
  digit with \<open>hundred\<close>, then the tens and ones with a hyphen, or a teen word.
\<close>

definition hundredsWords :: "nat \<Rightarrow> jsstring" where
  "hundredsWords c =
     (let h = c div 100; r = c mod 100
      in (if 0 < h then ONES ! h @ str '' hundred'' @ (if 0 < r then str '' '' else []) else [])
         @ (if 20 \<le> r then
              TENS ! (r div 10) @ (if 0 < r mod 10 then str ''-'' @ ONES ! (r mod 10) else [])
            else if 10 \<le> r then TEENS ! (r - 10)
            else if 0 < r then ONES ! r
            else []))"

text \<open>The base-1000 digits of a natural number, least significant first.\<close>

fun chunks :: "nat \<Rightarrow> nat list" where
  "chunks n = (if n = 0 then [] else n mod 1000 # chunks (n div 1000))"

declare chunks.simps [simp del]

text \<open>
  The phrase of the chunk at scale index \<open>i\<close>, and the words of a positive number: the phrases
  of the non-zero chunks, most significant first, joined by spaces.
\<close>

definition chunkPhrase :: "nat \<times> nat \<Rightarrow> jsstring" where
  "chunkPhrase = (\<lambda>(i, c). hundredsWords c @ (if 0 < i then str '' '' @ SCALES ! i else []))"

definition wordsOfNat :: "nat \<Rightarrow> jsstring" where
  "wordsOfNat n =
     join (map chunkPhrase (filter (\<lambda>(i, c). c \<noteq> 0) (rev (enumerate 0 (chunks n)))))"

text \<open>
  A code unit is a currency symbol when it is a key of \<open>CURRENCY_MAP\<close>; \<open>removeCurrency\<close>
  deletes every currency symbol from a string.
\<close>

definition isCurrencySymbol :: "nat \<Rightarrow> bool" where
  "isCurrencySymbol c = ([c] \<in> set (map fst CURRENCY_MAP))"

definition removeCurrency :: "jsstring \<Rightarrow> jsstring" where
  "removeCurrency s = filter (\<lambda>c. \<not> isCurrencySymbol c) s"

text \<open>
  The number \<open>convertNumber\<close> decodes from a string: the shorthand parser's result, or the
  plain fallback when it has none.
\<close>

definition decodeNumber :: "jsstring \<Rightarrow> number" where
  "decodeNumber t =
     (case parseShorthand t of Some v \<Rightarrow> v | None \<Rightarrow> parseFloat (cleanNumber t))"

text \<open>
  The value of a decimal with integer digits \<open>ds\<close> and fraction digits \<open>fs\<close>, the magnitude
  of a suffix, and the strings that are an optional suffix letter.
\<close>

definition decimalValue :: "jsstring \<Rightarrow> jsstring \<Rightarrow> rat" where
  "decimalValue ds fs = of_nat (digitsValue ds) + of_nat (digitsValue fs) / 10 ^ length fs"

definition suffixMagnitude :: "jsstring \<Rightarrow> rat" where
  "suffixMagnitude sfx =
     (if sfx = str ''K'' \<or> sfx = str ''k'' then 10 ^ 3
      else if sfx = str ''M'' \<or> sfx = str ''m'' then 10 ^ 6
      else if sfx = str ''B'' \<or> sfx = str ''b'' then 10 ^ 9
      else if sfx = str ''T'' \<or> sfx = str ''t'' then 10 ^ 12
      else 1)"

definition isSuffix :: "jsstring \<Rightarrow> bool" where
  "isSuffix sfx = (sfx = [] \<or> (length sfx = 1 \<and> isSuffixLetter (hd sfx)))"

text \<open>
  The phrase of a chunk as the loop of \<open>numberToWords\<close> builds it from natural numbers: the
  scale word is the lookup \<open>SCALES[scaleIndex]\<close> of JavaScript, which is \<open>undefined\<close> beyond
  the table.
\<close>

definition codePhrase :: "nat \<times> nat \<Rightarrow> jsstring" where
  "codePhrase = (\<lambda>(i, c). hundredsWords c @ (if 0 < i then str '' '' @ lookupScale i else []))"

text \<open>
  The largest of the scales \<open>10^3\<close>, \<open>10^6\<close>, \<open>10^9\<close> that a natural number below \<open>1e12\<close>
  reaches (1 when it reaches none).
\<close>

definition applicableScale :: "nat \<Rightarrow> nat" where
  "applicableScale m =
     (if 10 ^ 9 \<le> m then 10 ^ 9 else if 10 ^ 6 \<le> m then 10 ^ 6
      else if 10 ^ 3 \<le> m then 10 ^ 3 else 1)"

section \<open>Rounding to binary64\<close>

subsection \<open>The binary exponent\<close>

lemma bitLength_0 [simp]: "bitLength 0 = 0"
  by (simp add: bitLength.simps)

lemma bitLength_Suc_0 [simp]: "bitLength (Suc 0) = Suc 0"
  by (simp add: bitLength.simps)

lemma bitLength_pos: "0 < n \<Longrightarrow> 0 < bitLength n"
  by (subst bitLength.simps) simp

lemma bitLength_numeral [simp]:
  "bitLength (numeral Num.One) = 1"
  "bitLength (numeral (Num.Bit0 k)) = Suc (bitLength (numeral k))"
  "bitLength (numeral (Num.Bit1 k)) = Suc (bitLength (numeral k))"
  by (subst bitLength.simps, simp)+

lemma bitLength_bounds:
  "0 < n \<Longrightarrow> 2 ^ (bitLength n - 1) \<le> n \<and> n < 2 ^ bitLength n"
proof (induction n rule: bitLength.induct)
  case (1 n)
  show ?case
  proof (cases "n div 2 = 0")
    case True
    with 1 have "n = 1" by (simp add: div_eq_0_iff)
    then show ?thesis by (simp add: bitLength.simps)
  next
    case False
    with 1 have ih: "2 ^ (bitLength (n div 2) - 1) \<le> n div 2 \<and> n div 2 < 2 ^ bitLength (n div 2)"
      by simp
    have eq: "bitLength n = Suc (bitLength (n div 2))"
      using 1 by (subst bitLength.simps) simp
    from False obtain k where k: "bitLength (n div 2) = Suc k"
      using bitLength_pos [of "n div 2"] by (cases "bitLength (n div 2)") auto
    from ih k have "2 * 2 ^ k \<le> 2 * (n div 2)" "n div 2 < 2 * 2 ^ k" by simp_all
    then show ?thesis unfolding eq k by simp_all arith
  qed
qed

lemma ilog2_lower:
  assumes "0 < a"
  shows "2 powi (ilog2 a) \<le> a"
proof (cases "1 \<le> a")
  case True
  define n where "n = nat \<lfloor>a\<rfloor>"
  have fl1: "1 \<le> \<lfloor>a\<rfloor>" using True by (simp add: le_floor_iff)
  then have n: "0 < n" by (simp add: n_def)
  have e: "ilog2 a = int (bitLength n - 1)"
    using True bitLength_pos [OF n] by (simp add: ilog2_def n_def)
  have "2 ^ (bitLength n - 1) \<le> n" using bitLength_bounds [OF n] ..
  then have "(2 :: rat) ^ (bitLength n - 1) \<le> of_nat n"
    by simp
  moreover have "(of_nat n :: rat) \<le> a"
    using fl1 by (simp add: n_def)
  ultimately have "(2 :: rat) ^ (bitLength n - 1) \<le> a" by linarith
  then show ?thesis unfolding e by simp
next
  case False
  define N where "N = nat (\<lceil>1 / a\<rceil> - 1)"
  have inv: "1 < 1 / a" using False assms by simp
  then have c2: "2 \<le> \<lceil>1 / a\<rceil>" by (simp add: le_ceiling_iff)
  then have N: "0 < N" by (simp add: N_def)
  have e: "ilog2 a = - int (bitLength N)"
    using False by (simp add: ilog2_def N_def)
  have "N < 2 ^ bitLength N" using bitLength_bounds [OF N] ..
  then have "(of_nat N :: rat) < 2 ^ bitLength N" by simp
  then have "(of_nat N :: rat) + 1 \<le> 2 ^ bitLength N"
    by (metis of_nat_1 of_nat_add of_nat_numeral of_nat_power of_nat_le_iff of_nat_less_iff
        Suc_eq_plus1 Suc_leI)
  moreover have "1 / a \<le> of_nat N + 1"
  proof -
    have "of_nat N = (of_int (\<lceil>1 / a\<rceil> - 1) :: rat)"
    proof -
      have "0 \<le> \<lceil>1 / a\<rceil> - 1" using c2 by linarith
      then show ?thesis by (simp only: N_def of_nat_nat)
    qed
    then show ?thesis by simp
  qed
  ultimately have "1 / a \<le> 2 ^ bitLength N" by linarith
  then have "1 / 2 ^ bitLength N \<le> a"
    using assms by (simp add: field_simps)
  then show ?thesis unfolding e by (simp add: power_int_minus_divide)
qed

lemma ilog2_upper:
  assumes "0 < a"
  shows "a < 2 powi (ilog2 a + 1)"
proof (cases "1 \<le> a")
  case True
  define n where "n = nat \<lfloor>a\<rfloor>"
  have fl1: "1 \<le> \<lfloor>a\<rfloor>" using True by (simp add: le_floor_iff)
  then have n: "0 < n" by (simp add: n_def)
  have e: "ilog2 a + 1 = int (bitLength n)"
    using True by (simp add: ilog2_def n_def)
  have "n < 2 ^ bitLength n" using bitLength_bounds [OF n] ..
  then have "(of_nat n :: rat) < 2 ^ bitLength n" by simp
  then have "(of_nat n :: rat) + 1 \<le> 2 ^ bitLength n"
    by (metis of_nat_1 of_nat_add of_nat_numeral of_nat_power of_nat_le_iff of_nat_less_iff
        Suc_eq_plus1 Suc_leI)
  moreover have "a < of_nat n + 1"
  proof -
    have "of_nat n = (of_int \<lfloor>a\<rfloor> :: rat)"
    proof -
      have "0 \<le> \<lfloor>a\<rfloor>" using fl1 by linarith
      then show ?thesis by (simp only: n_def of_nat_nat)
    qed
    then show ?thesis by linarith
  qed
  ultimately have "a < 2 ^ bitLength n" by linarith
  then show ?thesis unfolding e by simp
next
  case False
  define N where "N = nat (\<lceil>1 / a\<rceil> - 1)"
  have inv: "1 < 1 / a" using False assms by simp
  then have c2: "2 \<le> \<lceil>1 / a\<rceil>" by (simp add: le_ceiling_iff)
  then have N: "0 < N" by (simp add: N_def)
  obtain k where k: "bitLength N = Suc k"
    using bitLength_pos [OF N] by (cases "bitLength N") auto
  have e: "ilog2 a + 1 = - int k"
    using False by (simp add: ilog2_def N_def [symmetric] k)
  have "2 ^ k \<le> N" using bitLength_bounds [OF N] by (simp add: k)
  then have "(2 :: rat) ^ k \<le> of_nat N"
    by simp
  moreover have "of_nat N < 1 / a"
  proof -
    have "of_nat N = (of_int (\<lceil>1 / a\<rceil> - 1) :: rat)"
    proof -
      have "0 \<le> \<lceil>1 / a\<rceil> - 1" using c2 by linarith
      then show ?thesis by (simp only: N_def of_nat_nat)
    qed
    then show ?thesis by linarith
  qed
  ultimately have "2 ^ k < 1 / a" by linarith
  then have "a < 1 / 2 ^ k"
    using assms by (simp add: field_simps)
  then show ?thesis unfolding e by (simp add: power_int_minus_divide)
qed


lemma roundHalfEven_of_int [simp]: "roundHalfEven (of_int m) = m"
  by (simp add: roundHalfEven_def)

lemma roundHalfEven_ge: "of_int j \<le> y \<Longrightarrow> j \<le> roundHalfEven y"
proof -
  assume "of_int j \<le> y"
  then have "j \<le> \<lfloor>y\<rfloor>" by (simp add: le_floor_iff)
  then show ?thesis by (simp add: roundHalfEven_def Let_def)
qed

lemma roundHalfEven_le: "y \<le> of_int j \<Longrightarrow> roundHalfEven y \<le> j"
proof -
  assume a: "y \<le> of_int j"
  then have f: "\<lfloor>y\<rfloor> \<le> j" by (meson floor_le_iff le_less_trans less_add_one of_int_floor_le order_trans floor_mono floor_of_int)
  show ?thesis
  proof (cases "y = of_int \<lfloor>y\<rfloor>")
    case True
    then have "roundHalfEven y = \<lfloor>y\<rfloor>" by (metis roundHalfEven_of_int)
    with f show ?thesis by simp
  next
    case False
    then have "of_int \<lfloor>y\<rfloor> < y" by (metis of_int_floor_le order_le_less)
    with a have "(of_int \<lfloor>y\<rfloor> :: rat) < of_int j" by linarith
    then have "\<lfloor>y\<rfloor> + 1 \<le> j" by simp
    then show ?thesis by (simp add: roundHalfEven_def Let_def)
  qed
qed

lemma roundHalfEven_err: "\<bar>of_int (roundHalfEven y) - y\<bar> \<le> 1 / 2"
proof -
  have "of_int \<lfloor>y\<rfloor> \<le> y" "y < of_int \<lfloor>y\<rfloor> + 1" by linarith+
  then show ?thesis by (auto simp: roundHalfEven_def Let_def)
qed

lemma ulp_exponent:
  assumes "0 < a" "a < 2 powi E" "- 1021 \<le> E"
  shows "\<exists>t. ulp a = 2 powi t \<and> t \<le> E - 53"
proof -
  have "(2::rat) powi ilog2 a < 2 powi E"
    using ilog2_lower [OF assms(1)] assms(2) by linarith
  then have "ilog2 a < E"
    using power_int_increasing [of E "ilog2 a" "2::rat"] by (cases "ilog2 a < E") auto
  with assms(3) have "max (ilog2 a) (- 1022) - 52 \<le> E - 53" by simp
  then show ?thesis unfolding ulp_def by blast
qed

lemma ulp_pos: "0 < ulp a"
  by (simp add: ulp_def)

lemma fl_exact:
  assumes "0 < a" "a < 2 ^ 1024" "a / ulp a = of_int m"
  shows "fl a = Fin a"
proof -
  have "of_int (roundHalfEven (a / ulp a)) = a / ulp a"
    by (simp add: assms(3))
  then have "of_int (roundHalfEven (a / ulp a)) * ulp a = a"
    using ulp_pos [of a] by simp
  then show ?thesis using assms(1,2) by (simp add: fl_def Let_def)
qed

lemma fl_dyadic:
  assumes "m < 2 ^ 53" "j \<le> 1074"
  shows "fl (of_nat m / 2 ^ j) = Fin (of_nat m / 2 ^ j)"
proof (cases "m = 0")
  case True
  then show ?thesis by (simp add: fl_def)
next
  case False
  define a :: rat where "a = of_nat m / 2 ^ j"
  have pos: "0 < a" using False by (simp add: a_def)
  have m53: "(of_nat m :: rat) < 2 ^ 53" using assms(1) by simp
  have "a < 2 ^ 53 / 2 ^ j" unfolding a_def using m53 by (simp add: divide_strict_right_mono)
  also have "\<dots> = 2 powi (53 - int j)" by (simp add: power_int_diff)
  finally have lt: "a < 2 powi (53 - int j)" .
  from ulp_exponent [OF pos lt] assms(2)
  obtain t where t: "ulp a = 2 powi t" "t \<le> - int j" by auto
  define k where "k = nat (- int j - t)"
  have "(2::rat) powi (- int j) = 2 powi t * 2 powi (int k)"
    using t(2) by (simp add: k_def flip: power_int_add)
  then have h: "1 / 2 ^ j = ulp a * 2 ^ k" by (simp add: t(1) power_int_minus_divide)
  have "a = of_nat m * (1 / 2 ^ j)" by (simp add: a_def)
  also have "\<dots> = of_nat m * (ulp a * 2 ^ k)" by (simp only: h)
  finally have "a = (of_nat m * 2 ^ k) * ulp a" by (simp only: mult_ac)
  then have "a / ulp a = of_nat m * 2 ^ k" using ulp_pos [of a] by (simp add: field_simps)
  then have int: "a / ulp a = of_int (int m * 2 ^ k)" by simp
  have "a < 2 ^ 1024"
  proof -
    have "1 \<le> (2::rat) ^ j" by simp
    then have "of_nat m / 2 ^ j \<le> (of_nat m :: rat) / 1" by (intro divide_left_mono) auto
    then have "a \<le> of_nat m" unfolding a_def by simp
    with m53 show ?thesis by simp
  qed
  with pos have "fl a = Fin a" using int by (rule fl_exact)
  then show ?thesis by (simp only: a_def)
qed

lemma fl_of_nat: "n < 2 ^ 53 \<Longrightarrow> fl (of_nat n) = Fin (of_nat n)"
  using fl_dyadic [of n 0] by simp

lemma fl_overflow:
  assumes "2 ^ 1024 \<le> a"
  shows "fl a = PosInf"
proof -
  have pos: "0 < a" using assms by (meson less_le_trans zero_less_numeral zero_less_power)
  have "(2::rat) powi 1024 < 2 powi (ilog2 a + 1)"
    using ilog2_upper [OF pos] assms by simp
  then have e: "1024 \<le> ilog2 a"
    using power_int_increasing [of "ilog2 a + 1" 1024 "2::rat"] by (cases "1024 \<le> ilog2 a") auto
  then have u: "ulp a = 2 powi (ilog2 a - 52)" by (simp add: ulp_def)
  have "2 powi ilog2 a / ulp a = (2::rat) powi 52" by (simp add: u power_int_diff)
  moreover have "2 powi ilog2 a / ulp a \<le> a / ulp a"
    using ilog2_lower [OF pos] ulp_pos [of a] by (intro divide_right_mono) auto
  ultimately have "of_int (2 ^ 52) \<le> a / ulp a" by simp
  then have "2 ^ 52 \<le> roundHalfEven (a / ulp a)" by (rule roundHalfEven_ge)
  then have "(2::rat) ^ 52 \<le> of_int (roundHalfEven (a / ulp a))" by (metis of_int_le_iff of_int_numeral of_int_power)
  then have "2 ^ 52 * ulp a \<le> of_int (roundHalfEven (a / ulp a)) * ulp a"
    using ulp_pos [of a] by simp
  moreover have "2 ^ 52 * ulp a = 2 powi ilog2 a" by (simp add: u power_int_diff)
  moreover have "(2::rat) powi 1024 \<le> 2 powi ilog2 a" using e by (intro power_int_increasing) auto
  ultimately have "2 ^ 1024 \<le> of_int (roundHalfEven (a / ulp a)) * ulp a" by simp
  then show ?thesis using pos by (simp add: fl_def Let_def)
qed

lemma fl_between:
  assumes "0 < x" "x < 2 powi E" "- 1021 \<le> E" "E \<le> 53"
    and "of_int k \<le> x" "x + 2 powi (E - 54) < of_int k + 1"
  shows "\<exists>y. fl x = Fin y \<and> \<lfloor>y\<rfloor> = k"
proof -
  from ulp_exponent [OF assms(1-3)] obtain t where t: "ulp x = 2 powi t" "t \<le> E - 53" by auto
  define y where "y = of_int (roundHalfEven (x / ulp x)) * ulp x"
  have up: "0 < ulp x" by (rule ulp_pos)
  have "\<bar>of_int (roundHalfEven (x / ulp x)) - x / ulp x\<bar> * ulp x \<le> 1 / 2 * ulp x"
    using roundHalfEven_err up by (intro mult_right_mono) auto
  moreover have "y - x = (of_int (roundHalfEven (x / ulp x)) - x / ulp x) * ulp x"
    using up by (simp add: y_def field_simps)
  then have "\<bar>y - x\<bar> = \<bar>of_int (roundHalfEven (x / ulp x)) - x / ulp x\<bar> * ulp x"
    using up by (simp add: abs_mult)
  ultimately have "\<bar>y - x\<bar> \<le> ulp x / 2" by simp
  moreover have "ulp x / 2 \<le> 2 powi (E - 54)"
  proof -
    have "ulp x \<le> 2 powi (E - 53)" unfolding t(1) using t(2) by (intro power_int_increasing) auto
    moreover have "(2::rat) powi (E - 53) = 2 * 2 powi (E - 54)"
      by (simp add: power_int_diff)
    ultimately show ?thesis by simp
  qed
  ultimately have hi: "y < of_int k + 1" using assms(6) by linarith
  define j where "j = nat (- t)"
  have "t \<le> 0" using t(2) assms(4) by simp
  then have "ulp x * 2 ^ j = 1" by (simp add: t(1) j_def power_int_def field_simps flip: power_inverse)
  then have "of_int k / ulp x = of_int (k * 2 ^ j)" using up by (simp add: field_simps)
  moreover have "of_int k / ulp x \<le> x / ulp x" using assms(5) up by (simp add: divide_right_mono)
  ultimately have "k * 2 ^ j \<le> roundHalfEven (x / ulp x)" by (intro roundHalfEven_ge) simp
  then have "(of_int (k * 2 ^ j) :: rat) \<le> of_int (roundHalfEven (x / ulp x))" by (simp only: of_int_le_iff)
  then have "of_int (k * 2 ^ j) * ulp x \<le> y" unfolding y_def using up by (intro mult_right_mono) auto
  moreover have "of_int (k * 2 ^ j) * ulp x = of_int k"
  proof -
    have "of_int (k * 2 ^ j) * ulp x = of_int k * (ulp x * 2 ^ j)" by (simp add: mult_ac)
    then show ?thesis by (simp only: \<open>ulp x * 2 ^ j = 1\<close> mult_1_right)
  qed
  ultimately have lo: "of_int k \<le> y" by (simp only:)
  have "x < 2 ^ 53"
  proof -
    have "(2::rat) powi E \<le> 2 powi 53" using assms(4) by (intro power_int_increasing) auto
    with assms(2) show ?thesis by simp
  qed
  with assms(5) hi have "y < 2 ^ 53 + 1" by linarith
  then have "y < 2 ^ 1024" by simp
  then have "fl x = Fin y" using assms(1) by (simp add: fl_def Let_def y_def)
  moreover have "\<lfloor>y\<rfloor> = k" using lo hi by (simp add: floor_unique)
  ultimately show ?thesis by blast
qed

lemma floor_rat_numeral [simp]:
  "\<lfloor>numeral a / numeral b :: rat\<rfloor> = numeral a div numeral b"
  by (metis floor_divide_of_int_eq of_int_numeral)

lemma floor_rat_one_numeral [simp]:
  "\<lfloor>1 / numeral b :: rat\<rfloor> = 1 div numeral b"
  by (metis floor_divide_of_int_eq of_int_numeral of_int_1)

lemma floor_rat_neg_numeral [simp]:
  "\<lfloor>- (numeral a / numeral b) :: rat\<rfloor> = - numeral a div numeral b"
  by (metis floor_divide_of_int_eq of_int_numeral of_int_minus minus_divide_left)

lemma ceiling_rat_numeral [simp]:
  "\<lceil>numeral a / numeral b :: rat\<rceil> = - (- numeral a div numeral b)"
  by (simp add: ceiling_def)

lemma ceiling_rat_neg_numeral [simp]:
  "\<lceil>- (numeral a / numeral b) :: rat\<rceil> = - (numeral a div numeral b)"
  by (simp add: ceiling_def)

section \<open>Arithmetic on natural numbers held as Numbers\<close>

lemma remN_nat:
  "remN (Fin (of_nat n)) (Fin (numeral d)) = Fin (of_nat (n mod numeral d))"
proof -
  have "truncToInt (of_nat n / numeral d) = int (n div numeral d)"
    using floor_divide_of_nat_eq [of n "numeral d", where ?'a = rat]
    by (simp add: truncToInt_def)
  moreover have "(of_nat n :: rat) = numeral d * of_nat (n div numeral d) + of_nat (n mod numeral d)"
    by (metis of_nat_add of_nat_mult of_nat_numeral mult_div_mod_eq)
  ultimately show ?thesis by simp
qed

lemma floor_fl_div_nat:
  assumes "n < 2 ^ 53" "0 < d" "- 1021 \<le> E" "E \<le> 53"
    and "2 ^ 53 \<le> of_nat d * (2::rat) powi E" "of_nat d * (2::rat) powi (E - 54) < 1"
  shows "floorN (fl (of_nat n / of_nat d)) = Fin (of_nat (n div d))"
proof (cases "n = 0")
  case True
  then show ?thesis by (simp add: fl_def)
next
  case False
  define x :: rat where "x = of_nat n / of_nat d"
  have dpos: "(0::rat) < of_nat d" using assms(2) by simp
  have pos: "0 < x" using False assms(2) by (simp add: x_def)
  have "(of_nat n :: rat) < 2 ^ 53" using assms(1) by (metis of_nat_less_iff of_nat_numeral of_nat_power)
  then have "of_nat n < of_nat d * (2::rat) powi E" using assms(5) by linarith
  then have lt: "x < 2 powi E" using dpos by (simp add: x_def divide_less_eq mult.commute)
  have lo: "of_int (int (n div d)) \<le> x"
    unfolding x_def using floor_divide_of_nat_eq [of n d, where ?'a = rat]
    by (metis of_int_floor_le of_int_of_nat_eq)
  have "n < d * (n div d) + d" using assms(2) by (metis mod_less_divisor mult_div_mod_eq nat_add_left_cancel_less)
  then have "n + 1 \<le> d * (n div d) + d" by simp
  then have "(of_nat (n + 1) :: rat) \<le> of_nat (d * (n div d) + d)" by (simp only: of_nat_le_iff)
  then have "(of_nat n :: rat) + 1 \<le> of_nat d * (of_nat (n div d) + 1)"
    by (simp add: algebra_simps)
  then have "x + 1 / of_nat d \<le> of_nat (n div d) + 1"
    using dpos by (simp add: x_def field_simps)
  moreover have "2 powi (E - 54) < 1 / (of_nat d :: rat)"
    using assms(6) dpos by (simp add: field_simps)
  ultimately have hi: "x + 2 powi (E - 54) < of_int (int (n div d)) + 1" by simp
  from fl_between [OF pos lt assms(3,4) lo hi]
  obtain y where "fl x = Fin y" "\<lfloor>y\<rfloor> = int (n div d)" by blast
  then show ?thesis by (simp add: x_def)
qed

lemma floor_divN_1000:
  assumes "n < 2 ^ 53"
  shows "floorN (divN (Fin (of_nat n)) (Fin 1000)) = Fin (of_nat (n div 1000))"
proof -
  have a: "2 ^ 53 \<le> of_nat 1000 * (2::rat) powi 44" by simp
  have b: "of_nat 1000 * (2::rat) powi (44 - 54) < 1" by (simp add: power_int_def power_divide)
  have "floorN (fl (of_nat n / of_nat 1000)) = Fin (of_nat (n div 1000))"
    using assms _ _ _ a b by (rule floor_fl_div_nat) simp_all
  then show ?thesis by simp
qed

lemma floor_divN_100:
  assumes "n < 2 ^ 53"
  shows "floorN (divN (Fin (of_nat n)) (Fin 100)) = Fin (of_nat (n div 100))"
proof -
  have a: "2 ^ 53 \<le> of_nat 100 * (2::rat) powi 47" by simp
  have b: "of_nat 100 * (2::rat) powi (47 - 54) < 1" by (simp add: power_int_def power_divide)
  have "floorN (fl (of_nat n / of_nat 100)) = Fin (of_nat (n div 100))"
    using assms _ _ _ a b by (rule floor_fl_div_nat) simp_all
  then show ?thesis by simp
qed

lemma floor_divN_10:
  assumes "n < 2 ^ 53"
  shows "floorN (divN (Fin (of_nat n)) (Fin 10)) = Fin (of_nat (n div 10))"
proof -
  have a: "2 ^ 53 \<le> of_nat 10 * (2::rat) powi 50" by simp
  have b: "of_nat 10 * (2::rat) powi (50 - 54) < 1" by (simp add: power_int_def power_divide)
  have "floorN (fl (of_nat n / of_nat 10)) = Fin (of_nat (n div 10))"
    using assms _ _ _ a b by (rule floor_fl_div_nat) simp_all
  then show ?thesis by simp
qed

lemma lookupStr_nat:
  "lookupStr table (Fin (of_nat k)) = (if k < length table then table ! k else str ''undefined'')"
  by (simp add: lookupStr_def isWhole_def)

lemma subN_nat_10:
  assumes "10 \<le> r" "r < 2 ^ 53"
  shows "subN (Fin (of_nat r)) (Fin 10) = Fin (of_nat (r - 10))"
proof -
  have e: "(of_nat r :: rat) - 10 = of_nat (r - 10)" using assms(1) by (simp add: of_nat_diff)
  have lt: "r - 10 < 2 ^ 53" using assms(2) by simp
  have "subN (Fin (of_nat r)) (Fin 10) = fl (of_nat r - 10)" by simp
  also have "\<dots> = fl (of_nat (r - 10))" by (simp only: e)
  also have "\<dots> = Fin (of_nat (r - 10))" using lt by (rule fl_of_nat)
  finally show ?thesis .
qed

lemma table_lengths:
  "length ONES = 10" "length TENS = 10" "length TEENS = 10" "length SCALES = 5"
  by (simp_all add: ONES_def TENS_def TEENS_def SCALES_def)

lemma convertTens_nat:
  assumes "r < 100"
  shows "convertTens res (Fin (of_nat r)) =
     res @ (if 20 \<le> r then
              TENS ! (r div 10) @ (if 0 < r mod 10 then str ''-'' @ ONES ! (r mod 10) else [])
            else if 10 \<le> r then TEENS ! (r - 10)
            else if 0 < r then ONES ! r
            else [])"
proof -
  have r53: "r < 2 ^ 53" using assms by simp
  have h: "r div 10 < 10" "r mod 10 < 10" "r - 10 < 10 \<or> r < 10 \<or> 20 \<le> r"
    using assms by auto
  consider "20 \<le> r" | "10 \<le> r" "r < 20" | "0 < r" "r < 10" | "r = 0" by linarith
  then show ?thesis
  proof cases
    case 1
    then show ?thesis
      using h by (simp add: convertTens_def Let_def floor_divN_10 [OF r53] remN_nat
          lookupStr_nat table_lengths del: divN.simps remN.simps)
  next
    case 2
    have "subN (Fin (of_nat r)) (Fin 10) = Fin (of_nat (r - 10))"
      using 2(1) r53 by (rule subN_nat_10)
    moreover have "r - 10 < 10" using 2 by linarith
    then have "lookupStr TEENS (Fin (of_nat (r - 10))) = TEENS ! (r - 10)"
      by (simp only: lookupStr_nat table_lengths if_True)
    ultimately have "lookupStr TEENS (subN (Fin (of_nat r)) (Fin 10)) = TEENS ! (r - 10)"
      by (simp only:)
    with 2 show ?thesis
      by (simp add: convertTens_def del: subN.simps)
  next
    case 3
    then show ?thesis
      by (simp add: convertTens_def lookupStr_nat table_lengths)
  next
    case 4
    then show ?thesis by (simp add: convertTens_def)
  qed
qed

lemma convertHundreds_nat:
  assumes "c < 1000"
  shows "convertHundreds (Fin (of_nat c)) = hundredsWords c"
proof -
  have c53: "c < 2 ^ 53" using assms by simp
  have h: "c div 100 < 10" "c mod 100 < 100" using assms by auto
  show ?thesis
  proof (cases "100 \<le> c")
    case True
    then have "0 < c div 100" by (simp add: div_greater_zero_iff)
    with True show ?thesis
      using h by (simp add: convertHundreds_def hundredsWords_def Let_def floor_divN_100 [OF c53]
          remN_nat lookupStr_nat table_lengths convertTens_nat del: divN.simps remN.simps)
  next
    case False
    then have "c div 100 = 0" "c mod 100 = c" by simp_all
    with False show ?thesis
      using assms by (simp add: convertHundreds_def hundredsWords_def Let_def convertTens_nat)
  qed
qed


lemma chunks_0 [simp]: "chunks 0 = []"
  by (simp add: chunks.simps)

lemma chunks_pos: "0 < n \<Longrightarrow> chunks n = n mod 1000 # chunks (n div 1000)"
  by (subst chunks.simps) simp

lemma chunks_numeral [simp]:
  "chunks (numeral k) = numeral k mod 1000 # chunks (numeral k div 1000)"
  by (rule chunks_pos) simp

lemma chunks_Suc_0 [simp]: "chunks (Suc 0) = [1]"
  by (simp add: chunks_pos)

lemma length_chunks: "n < 1000 ^ k \<Longrightarrow> length (chunks n) \<le> k"
proof (induction k arbitrary: n)
  case 0
  then show ?case by simp
next
  case (Suc k)
  show ?case
  proof (cases "n = 0")
    case True
    then show ?thesis by simp
  next
    case False
    from Suc.prems have "n div 1000 < 1000 ^ k"
      by (simp add: less_mult_imp_div_less mult.commute)
    then have "length (chunks (n div 1000)) \<le> k" by (rule Suc.IH)
    with False show ?thesis by (simp add: chunks_pos)
  qed
qed

lemma unshiftChunk_nat:
  assumes "c < 1000" "i < 5"
  shows "unshiftChunk (Fin (of_nat c)) i parts =
     (if c \<noteq> 0 then chunkPhrase (i, c) # parts else parts)"
  using assms
  by (simp add: unshiftChunk_def Let_def convertHundreds_nat chunkPhrase_def lookupScale_def
      table_lengths)

lemma wordsLoop_nat:
  assumes "n < 2 ^ 53" "length (chunks n) + i \<le> 5"
  shows "wordsLoop (Fin (of_nat n)) i parts =
     Some (map chunkPhrase (filter (\<lambda>(i, c). c \<noteq> 0) (rev (enumerate i (chunks n)))) @ parts)"
  using assms
proof (induction n arbitrary: i parts rule: chunks.induct)
  case (1 n)
  show ?case
  proof (cases "n = 0")
    case True
    then show ?thesis by (subst wordsLoop.simps) simp
  next
    case False
    then have ch: "chunks n = n mod 1000 # chunks (n div 1000)" by (simp add: chunks_pos)
    have small: "n div 1000 < 2 ^ 53" using "1.prems"(1) by (meson div_le_dividend le_less_trans)
    have len: "length (chunks (n div 1000)) + Suc i \<le> 5" using "1.prems"(2) ch by simp
    then have i5: "i < 5" by simp
    have "wordsLoop (Fin (of_nat n)) i parts =
        wordsLoop (Fin (of_nat (n div 1000))) (Suc i)
          (unshiftChunk (Fin (of_nat (n mod 1000))) i parts)"
      using False
      by (subst wordsLoop.simps)
        (simp add: floor_divN_1000 [OF "1.prems"(1)] remN_nat del: divN.simps remN.simps)
    also have "\<dots> = Some (map chunkPhrase
          (filter (\<lambda>(i, c). c \<noteq> 0) (rev (enumerate (Suc i) (chunks (n div 1000)))))
        @ unshiftChunk (Fin (of_nat (n mod 1000))) i parts)"
      using False small len by (rule "1.IH")
    also have "\<dots> = Some (map chunkPhrase
          (filter (\<lambda>(i, c). c \<noteq> 0) (rev (enumerate i (chunks n)))) @ parts)"
      using i5 by (simp add: ch unshiftChunk_nat)
    finally show ?thesis .
  qed
qed

lemma numberToWords_nat:
  assumes "0 < n" "n < 10 ^ 15"
  shows "numberToWords (Fin (of_nat n)) = Some (wordsOfNat n)"
proof -
  have "n < 1000 ^ 5" using assms(2) by simp
  then have "length (chunks n) + 0 \<le> 5" using length_chunks [of n 5] by simp
  moreover have "n < 2 ^ 53" using assms(2) by simp
  ultimately have "wordsLoop (Fin (of_nat n)) 0 [] =
      Some (map chunkPhrase (filter (\<lambda>(i, c). c \<noteq> 0) (rev (enumerate 0 (chunks n)))) @ [])"
    by (rule wordsLoop_nat [rotated])
  then show ?thesis
    using assms(1) by (subst numberToWords.simps) (simp add: wordsOfNat_def)
qed

lemma numberToWords_negative:
  "q < 0 \<Longrightarrow> numberToWords (Fin q) =
     map_option (\<lambda>w. str ''negative '' @ w) (numberToWords (Fin (- q)))"
  by (subst numberToWords.simps) (simp add: map_option_case split: option.splits)

section \<open>Cleaning and trimming\<close>

lemma filter_dropWhile_disjoint:
  "(\<And>c. p c \<Longrightarrow> \<not> w c) \<Longrightarrow> filter p (dropWhile w s) = filter p s"
  by (induction s) auto

lemma filter_trim:
  assumes "\<And>c. p c \<Longrightarrow> \<not> isWhiteSpace c"
  shows "filter p (trim s) = filter p s"
proof -
  have "filter p (trim s) = rev (filter p (dropWhile isWhiteSpace (rev (dropWhile isWhiteSpace s))))"
    by (simp add: trim_def rev_filter)
  also have "\<dots> = rev (filter p (rev (dropWhile isWhiteSpace s)))"
    using assms by (simp add: filter_dropWhile_disjoint)
  also have "\<dots> = filter p (dropWhile isWhiteSpace s)"
    by (simp add: rev_filter [symmetric])
  also have "\<dots> = filter p s"
    using assms by (simp add: filter_dropWhile_disjoint)
  finally show ?thesis .
qed

lemma trim_empty_iff: "trim s = [] \<longleftrightarrow> (\<forall>c\<in>set s. isWhiteSpace c)"
proof
  assume "trim s = []"
  then have "dropWhile isWhiteSpace (rev (dropWhile isWhiteSpace s)) = []"
    by (simp only: trim_def rev_is_Nil_conv)
  then have "\<forall>c\<in>set (rev (dropWhile isWhiteSpace s)). isWhiteSpace c"
    by (simp only: dropWhile_eq_Nil_conv)
  then have all: "\<forall>c\<in>set (dropWhile isWhiteSpace s). isWhiteSpace c"
    by (simp only: set_rev)
  have "dropWhile isWhiteSpace s = []"
  proof (rule ccontr)
    assume ne: "dropWhile isWhiteSpace s \<noteq> []"
    then have "\<not> isWhiteSpace (hd (dropWhile isWhiteSpace s))" by (rule hd_dropWhile)
    moreover have "hd (dropWhile isWhiteSpace s) \<in> set (dropWhile isWhiteSpace s)"
      using ne by simp
    ultimately show False using all by blast
  qed
  then show "\<forall>c\<in>set s. isWhiteSpace c" by (simp add: dropWhile_eq_Nil_conv)
next
  assume "\<forall>c\<in>set s. isWhiteSpace c"
  then have "dropWhile isWhiteSpace s = []" by (simp add: dropWhile_eq_Nil_conv)
  then show "trim s = []" by (simp only: trim_def dropWhile.simps rev.simps)
qed

lemma kept_not_whitespace:
  "isDigit c \<or> c = 46 \<or> isSuffixLetter c \<Longrightarrow> \<not> isWhiteSpace c"
  "isDigit c \<or> c = 46 \<or> c = 45 \<Longrightarrow> \<not> isWhiteSpace c"
  by (auto simp: isDigit_def isSuffixLetter_def isWhiteSpace_def)

lemma kept_not_currency:
  "isDigit c \<or> c = 46 \<or> isSuffixLetter c \<Longrightarrow> \<not> isCurrencySymbol c"
  "isDigit c \<or> c = 46 \<or> c = 45 \<Longrightarrow> \<not> isCurrencySymbol c"
  by (auto simp: isDigit_def isSuffixLetter_def isCurrencySymbol_def CURRENCY_MAP_def)

lemma currency_not_whitespace: "isCurrencySymbol c \<Longrightarrow> \<not> isWhiteSpace c"
  by (auto simp: isCurrencySymbol_def CURRENCY_MAP_def isWhiteSpace_def)

lemma cleanShorthand_trim [simp]: "cleanShorthand (trim s) = cleanShorthand s"
  unfolding cleanShorthand_def by (rule filter_trim) (rule kept_not_whitespace)

lemma cleanNumber_trim [simp]: "cleanNumber (trim s) = cleanNumber s"
  unfolding cleanNumber_def by (rule filter_trim) (rule kept_not_whitespace)

lemma cleanShorthand_removeCurrency [simp]:
  "cleanShorthand (removeCurrency s) = cleanShorthand s"
  unfolding cleanShorthand_def removeCurrency_def filter_filter
  by (rule filter_cong) (use kept_not_currency in auto)

lemma cleanNumber_removeCurrency [simp]:
  "cleanNumber (removeCurrency s) = cleanNumber s"
  unfolding cleanNumber_def removeCurrency_def filter_filter
  by (rule filter_cong) (use kept_not_currency in auto)

lemma parseShorthand_trim [simp]: "parseShorthand (trim s) = parseShorthand s"
  by (simp add: parseShorthand_def)

lemma parseShorthand_removeCurrency [simp]:
  "parseShorthand (removeCurrency s) = parseShorthand s"
  by (simp add: parseShorthand_def)

lemma decodeNumber_trim [simp]: "decodeNumber (trim s) = decodeNumber s"
  by (simp add: decodeNumber_def cong: option.case_cong)

lemma decodeNumber_removeCurrency [simp]: "decodeNumber (removeCurrency s) = decodeNumber s"
  by (simp add: decodeNumber_def cong: option.case_cong)

lemma parseFloat_Nil [simp]: "parseFloat [] = NaN"
  by (simp add: parseFloat_def unsignedLiteral_def str_def)

lemma matchShorthand_Nil [simp]: "matchShorthand [] = None"
  by (simp add: matchShorthand_def)

lemma decodeNumber_blank:
  assumes "\<forall>c\<in>set s. isWhiteSpace c \<or> isCurrencySymbol c"
  shows "decodeNumber s = NaN"
proof -
  have "cleanShorthand s = []" "cleanNumber s = []"
    using assms kept_not_whitespace kept_not_currency
    by (auto simp: cleanShorthand_def cleanNumber_def filter_empty_conv)
  then show ?thesis by (simp add: decodeNumber_def parseShorthand_def)
qed

lemma isValid_convertNumber:
  "map_option isValid (convertNumber s) =
     (if trim s = [] then Some False
      else if isNaN (decodeNumber s) then Some False
      else map_option (\<lambda>_. True) (numberToWords (decodeNumber s)))"
proof -
  have "decodeNumber s = (case parseShorthand (trim s) of Some v \<Rightarrow> v
                          | None \<Rightarrow> parseFloat (cleanNumber (trim s)))"
    using decodeNumber_trim [of s] by (simp add: decodeNumber_def)
  then show ?thesis
    by (simp add: convertNumber_def Let_def split: option.splits)
qed

lemma isValid_removeCurrency:
  "map_option isValid (convertNumber (removeCurrency s)) = map_option isValid (convertNumber s)"
proof (cases "\<forall>c\<in>set s. isWhiteSpace c \<or> isCurrencySymbol c")
  case True
  then have "decodeNumber s = NaN" by (rule decodeNumber_blank)
  moreover have "trim (removeCurrency s) = []"
    using True by (auto simp: trim_empty_iff removeCurrency_def)
  ultimately show ?thesis by (simp add: isValid_convertNumber isNaN_def)
next
  case False
  then obtain c where c: "c \<in> set s" "\<not> isWhiteSpace c" "\<not> isCurrencySymbol c" by blast
  then have "trim s \<noteq> []" "trim (removeCurrency s) \<noteq> []"
    by (auto simp: trim_empty_iff removeCurrency_def)
  then show ?thesis by (simp add: isValid_convertNumber)
qed


section \<open>Evaluation on numerals\<close>

lemma fl_0 [simp]: "fl 0 = Fin 0"
  by (simp add: fl_def)

lemma fl_1 [simp]: "fl 1 = Fin 1"
  using fl_of_nat [of 1] by simp

lemma fl_numeral [simp]: "(numeral k :: nat) < 2 ^ 53 \<Longrightarrow> fl (numeral k) = Fin (numeral k)"
  using fl_of_nat [of "numeral k"] by simp

lemma fl_numeral_half [simp]:
  "(numeral k :: nat) < 2 ^ 53 \<Longrightarrow> fl (numeral k / 2) = Fin (numeral k / 2)"
  using fl_dyadic [of "numeral k" 1] by simp

lemma digits_numeral [simp]:
  "digits (numeral k) =
     (if (numeral k :: nat) < 10 then [48 + numeral k]
      else digits (numeral k div 10) @ [48 + numeral k mod 10])"
  by (rule digits.simps)

lemma digits_0 [simp]: "digits 0 = [48]"
  by (simp add: digits.simps)

lemma digits_Suc_0 [simp]: "digits (Suc 0) = [49]"
  by (simp add: digits.simps)

lemmas words_eval = wordsOfNat_def chunkPhrase_def hundredsWords_def ONES_def TENS_def TEENS_def
  SCALES_def str_def Let_def

lemmas parse_eval = parseShorthand_def cleanShorthand_def matchShorthand_def parseFloat_def
  unsignedLiteral_def exponentPart_def exponentDigits_def digitsValue_def multipliers_def
  isDigit_def isSuffixLetter_def isWhiteSpace_def isNaN_def cleanNumber_def

lemmas format_eval = numberToShorthand_def toFixed_def numberToString_def isWhole_def

lemmas convert_eval = convertNumber_def trim_def extractCurrency_def CURRENCY_MAP_def

lemmas fl_eval = fl_def ulp_def ilog2_def roundHalfEven_def Let_def power_int_def power_divide

lemmas code_words_eval = codePhrase_def lookupScale_def hundredsWords_def ONES_def TENS_def
  TEENS_def SCALES_def str_def Let_def

section \<open>Numbers that are not natural\<close>

lemma floorN_fl_below_one:
  assumes "0 \<le> q" "q \<le> 999 / 1000"
  shows "floorN (fl q) = Fin 0"
proof (cases "q = 0")
  case True
  then show ?thesis by simp
next
  case False
  with assms(1) have pos: "0 < q" by simp
  have lt: "q < 2 powi 0" using assms(2) by simp
  have lo: "of_int 0 \<le> q" using assms(1) by simp
  have hi: "q + 2 powi (0 - 54) < of_int 0 + 1"
    using assms(2) by (simp add: power_int_def power_divide)
  from fl_between [OF pos lt _ _ lo hi] obtain y where "fl q = Fin y" "\<lfloor>y\<rfloor> = 0" by auto
  then show ?thesis by simp
qed

section \<open>The shorthand grammar\<close>

lemma span_digits:
  assumes "\<forall>c\<in>set ds. isDigit c" "rest = [] \<or> \<not> isDigit (hd rest)"
  shows "takeWhile isDigit (ds @ rest) = ds" "dropWhile isDigit (ds @ rest) = rest"
proof -
  have "takeWhile isDigit rest = []" "dropWhile isDigit rest = rest"
    using assms(2) by (cases rest; simp)+
  with assms(1) show "takeWhile isDigit (ds @ rest) = ds" "dropWhile isDigit (ds @ rest) = rest"
    by (simp_all add: takeWhile_append2 dropWhile_append2)
qed

lemma fl_not_NaN [simp]: "fl q \<noteq> NaN"
  by (simp add: fl_def Let_def)

lemma unsignedLiteral_decimal:
  assumes "ds \<noteq> []" "\<forall>c\<in>set ds. isDigit c" "\<forall>c\<in>set fs. isDigit c"
    and "dot = [46] \<or> (dot = [] \<and> fs = [])"
  shows "unsignedLiteral (ds @ dot @ fs) = Some (fl (decimalValue ds fs))"
proof -
  obtain d ds' where ds: "ds = d # ds'" using assms(1) by (cases ds) auto
  then have d: "isDigit d" using assms(2) by simp
  then have noInf: "\<not> prefix (str ''Infinity'') (ds @ dot @ fs)"
    by (auto simp: ds str_def isDigit_def)
  have rest: "dot @ fs = [] \<or> \<not> isDigit (hd (dot @ fs))"
    using assms(4) by (auto simp: isDigit_def)
  note sp = span_digits [OF assms(2) rest]
  have sp2: "takeWhile isDigit fs = fs" "dropWhile isDigit fs = []"
    using span_digits [OF assms(3), of "[]"] by simp_all
  show ?thesis
    using assms(1,4) noInf
    by (auto simp: unsignedLiteral_def Let_def sp sp2 exponentPart_def decimalValue_def
        digitsValue_def)
qed

lemma parseFloat_decimal:
  assumes "ds \<noteq> []" "\<forall>c\<in>set ds. isDigit c" "\<forall>c\<in>set fs. isDigit c"
    and "dot = [46] \<or> (dot = [] \<and> fs = [])"
  shows "parseFloat (ds @ dot @ fs) = fl (decimalValue ds fs)"
proof -
  obtain d ds' where ds: "ds = d # ds'" using assms(1) by (cases ds) auto
  then have d: "isDigit d" using assms(2) by simp
  then have "\<not> isWhiteSpace d" "d \<noteq> 45" "d \<noteq> 43"
    by (auto simp: isDigit_def isWhiteSpace_def)
  then have "parseFloat (ds @ dot @ fs) =
      (case unsignedLiteral (ds @ dot @ fs) of None \<Rightarrow> NaN | Some x \<Rightarrow> x)"
    by (simp add: parseFloat_def ds Let_def cong: option.case_cong)
  then show ?thesis by (simp add: unsignedLiteral_decimal [OF assms])
qed

lemma matchShorthand_grammar:
  assumes "ds \<noteq> []" "\<forall>c\<in>set ds. isDigit c" "\<forall>c\<in>set fs. isDigit c"
    and "dot = [46] \<or> (dot = [] \<and> fs = [])" "isSuffix sfx"
  shows "matchShorthand (ds @ dot @ fs @ sfx) = Some (ds @ dot @ fs, sfx)"
proof -
  have nd: "sfx = [] \<or> \<not> isDigit (hd sfx)"
    using assms(5) by (auto simp: isSuffix_def isDigit_def isSuffixLetter_def)
  have ndot: "sfx = [] \<or> hd sfx \<noteq> 46"
    using assms(5) by (auto simp: isSuffix_def isSuffixLetter_def)
  have fin: "(if sfx = [] then Some (np, [])
              else if length sfx = 1 \<and> isSuffixLetter (hd sfx) then Some (np, sfx)
              else None) = Some (np, sfx)" for np :: jsstring
    using assms(5) by (auto simp: isSuffix_def)
  show ?thesis
  proof (cases "dot = []")
    case True
    with assms(4) have fs: "fs = []" by simp
    have t: "takeWhile isDigit (ds @ sfx) = ds" "dropWhile isDigit (ds @ sfx) = sfx"
      using span_digits [OF assms(2) nd] .
    have t2: "takeWhile isDigit sfx = []" "dropWhile isDigit sfx = sfx"
      using span_digits [of "[]" sfx] nd by simp_all
    have nodot: "\<not> (sfx \<noteq> [] \<and> hd sfx = 46)" using ndot by blast
    show ?thesis
      unfolding True fs matchShorthand_def Let_def append_Nil t t2
      by (simp only: nodot if_False assms(1) append_Nil append_Nil2 t2 fin)
  next
    case False
    with assms(4) have dot: "dot = [46]" by simp
    have "\<not> isDigit 46" by (simp add: isDigit_def)
    then have t: "takeWhile isDigit (ds @ 46 # fs @ sfx) = ds"
      "dropWhile isDigit (ds @ 46 # fs @ sfx) = 46 # fs @ sfx"
      using span_digits [OF assms(2), of "46 # fs @ sfx"] by simp_all
    have t2: "takeWhile isDigit (fs @ sfx) = fs" "dropWhile isDigit (fs @ sfx) = sfx"
      using span_digits [OF assms(3) nd] .
    have hasDot: "(46 # fs @ sfx \<noteq> [] \<and> hd (46 # fs @ sfx) = 46) = True" by simp
    have tl: "tl (46 # fs @ sfx) = fs @ sfx" by simp
    show ?thesis
      unfolding dot
      by (simp only: matchShorthand_def Let_def append_Cons append_Nil t hasDot tl if_True t2
          assms(1) if_False fin)
  qed
qed

lemma multiplier_magnitude:
  assumes "isSuffix sfx"
  shows "(if sfx \<noteq> [] then (case map_of multipliers sfx of Some m \<Rightarrow> m | None \<Rightarrow> Fin 1)
          else Fin 1) = Fin (suffixMagnitude sfx)"
proof (cases sfx)
  case Nil
  then show ?thesis by (simp add: suffixMagnitude_def str_def)
next
  case (Cons c cs)
  with assms have "cs = []" "isSuffixLetter c" by (auto simp: isSuffix_def)
  with Cons show ?thesis
    by (auto simp: isSuffixLetter_def multipliers_def suffixMagnitude_def str_def)
qed

lemma parseShorthand_grammar:
  assumes "cleanShorthand input = ds @ dot @ fs @ sfx"
    and "ds \<noteq> []" "\<forall>c\<in>set ds. isDigit c" "\<forall>c\<in>set fs. isDigit c"
    and "dot = [46] \<or> (dot = [] \<and> fs = [])" "isSuffix sfx"
  shows "parseShorthand input = Some (mulN (fl (decimalValue ds fs)) (Fin (suffixMagnitude sfx)))"
  by (simp add: parseShorthand_def assms(1) matchShorthand_grammar [OF assms(2-6)]
      parseFloat_decimal [OF assms(2-5)] isNaN_def multiplier_magnitude [OF assms(6)] Let_def
      del: mulN.simps)

lemma matchShorthand_Some:
  assumes "matchShorthand c = Some (np, sfx)"
  shows "\<exists>ds dot fs. c = ds @ dot @ fs @ sfx \<and> np = ds @ dot @ fs \<and> ds \<noteq> []
           \<and> (\<forall>c\<in>set ds. isDigit c) \<and> (\<forall>c\<in>set fs. isDigit c)
           \<and> (dot = [46] \<or> (dot = [] \<and> fs = [])) \<and> isSuffix sfx"
proof -
  define ds where "ds = takeWhile isDigit c"
  define r1 where "r1 = dropWhile isDigit c"
  define hasDot where "hasDot = (r1 \<noteq> [] \<and> hd r1 = 46)"
  define r2 where "r2 = (if hasDot then tl r1 else r1)"
  define dot :: jsstring where "dot = (if hasDot then [46] else [])"
  define fs where "fs = takeWhile isDigit r2"
  define r3 where "r3 = dropWhile isDigit r2"
  have m: "matchShorthand c =
      (if ds = [] then None
       else if r3 = [] then Some (ds @ dot @ fs, [])
       else if length r3 = 1 \<and> isSuffixLetter (hd r3) then Some (ds @ dot @ fs, r3)
       else None)"
    unfolding matchShorthand_def Let_def ds_def r1_def hasDot_def r2_def dot_def fs_def r3_def
    by (rule refl)
  from assms have ne: "ds \<noteq> []" and np: "np = ds @ dot @ fs" and sfx: "sfx = r3"
    and suf: "isSuffix sfx"
    unfolding m by (auto simp: isSuffix_def split: if_splits)
  have c1: "c = ds @ r1" by (simp add: ds_def r1_def)
  have r1: "r1 = dot @ r2"
    by (cases r1) (auto simp: hasDot_def r2_def dot_def)
  have r2: "r2 = fs @ r3" by (simp add: fs_def r3_def)
  have dig: "\<forall>c\<in>set ds. isDigit c" "\<forall>c\<in>set fs. isDigit c"
    by (auto simp: ds_def fs_def dest: set_takeWhileD)
  have "fs = []" if "\<not> hasDot"
  proof -
    from that have "r2 = r1" by (simp add: r2_def)
    moreover have "r1 = [] \<or> \<not> isDigit (hd r1)"
      unfolding r1_def using hd_dropWhile [of isDigit c] by blast
    ultimately show ?thesis by (auto simp: fs_def takeWhile_eq_Nil_iff)
  qed
  then have d: "dot = [46] \<or> (dot = [] \<and> fs = [])" by (auto simp: dot_def)
  have "c = ds @ dot @ fs @ sfx" by (simp only: c1 r1 [symmetric] r2 [symmetric] sfx)
  with np ne dig d suf show ?thesis by blast
qed

lemma fl_nonneg:
  assumes "0 \<le> q"
  shows "fl q = PosInf \<or> (\<exists>r\<ge>0. fl q = Fin r)"
proof (cases "q = 0")
  case True
  then show ?thesis by simp
next
  case False
  with assms have pos: "0 < q" by simp
  have "0 \<le> roundHalfEven (\<bar>q\<bar> / ulp \<bar>q\<bar>)"
    using ulp_pos [of "\<bar>q\<bar>"] by (intro roundHalfEven_ge) simp
  then have "0 \<le> of_int (roundHalfEven (\<bar>q\<bar> / ulp \<bar>q\<bar>)) * ulp \<bar>q\<bar>"
    using ulp_pos [of "\<bar>q\<bar>"] by simp
  then show ?thesis using pos by (simp add: fl_def Let_def)
qed

lemma mulN_nonneg:
  assumes "0 \<le> a" "0 < m"
  shows "geN (mulN (fl a) (Fin m)) (Fin 0)"
proof -
  from fl_nonneg [OF assms(1)] consider "fl a = PosInf" | r where "0 \<le> r" "fl a = Fin r"
    by blast
  then show ?thesis
  proof cases
    case 1
    then show ?thesis using assms(2) by simp
  next
    case 2
    then have "0 \<le> r * m" using assms(2) by simp
    from fl_nonneg [OF this] 2 show ?thesis by auto
  qed
qed

lemma suffixMagnitude_pos: "0 < suffixMagnitude sfx"
  by (simp add: suffixMagnitude_def)

lemma decimalValue_nonneg: "0 \<le> decimalValue ds fs"
  by (simp add: decimalValue_def)

lemma parseShorthand_Some:
  assumes "parseShorthand input = Some v"
  shows "\<exists>ds dot fs sfx. cleanShorthand input = ds @ dot @ fs @ sfx \<and> ds \<noteq> []
           \<and> (\<forall>c\<in>set ds. isDigit c) \<and> (\<forall>c\<in>set fs. isDigit c)
           \<and> (dot = [46] \<or> (dot = [] \<and> fs = [])) \<and> isSuffix sfx
           \<and> v = mulN (fl (decimalValue ds fs)) (Fin (suffixMagnitude sfx))"
proof -
  from assms obtain np sfx where m: "matchShorthand (cleanShorthand input) = Some (np, sfx)"
    by (auto simp: parseShorthand_def split: option.splits)
  from matchShorthand_Some [OF m] obtain ds dot fs where
    g: "cleanShorthand input = ds @ dot @ fs @ sfx" "ds \<noteq> []"
      "\<forall>c\<in>set ds. isDigit c" "\<forall>c\<in>set fs. isDigit c"
      "dot = [46] \<or> (dot = [] \<and> fs = [])" "isSuffix sfx"
    by blast
  from parseShorthand_grammar [OF g] assms
  have "v = mulN (fl (decimalValue ds fs)) (Fin (suffixMagnitude sfx))" by simp
  with g show ?thesis by blast
qed

lemma parseShorthand_nonneg: "parseShorthand input = Some v \<Longrightarrow> geN v (Fin 0)"
  using parseShorthand_Some [of input v] mulN_nonneg [OF decimalValue_nonneg suffixMagnitude_pos]
  by blast

lemma wordsLoop_PosInf: "wordsLoop PosInf i parts = None"
proof -
  have "num \<noteq> PosInf" if "wordsLoop num i parts = Some y" for num i parts y
  proof (rule wordsLoop.raw_induct [where P = "\<lambda>num i parts y. num \<noteq> PosInf", OF _ that])
    fix loop :: "number \<Rightarrow> nat \<Rightarrow> jsstring list \<Rightarrow> jsstring list option"
      and num i parts y
    assume ih: "\<And>num i parts y. loop num i parts = Some y \<Longrightarrow> num \<noteq> PosInf"
      and body: "(if ltN (Fin 0) num
          then loop (floorN (divN num (Fin 1000))) (Suc i)
                 (unshiftChunk (remN num (Fin 1000)) i parts)
          else Some parts) = Some y"
    show "num \<noteq> PosInf"
    proof
      assume "num = PosInf"
      with body have "loop PosInf (Suc i) (unshiftChunk NaN i parts) = Some y" by simp
      then have "PosInf \<noteq> PosInf" by (rule ih)
      then show False by simp
    qed
  qed
  then show ?thesis by (cases "wordsLoop PosInf i parts") auto
qed

lemma numberToWords_PosInf: "numberToWords PosInf = None"
  by (subst numberToWords.simps) (simp add: wordsLoop_PosInf)


lemma digitsValue_snoc: "digitsValue (ds @ [c]) = 10 * digitsValue ds + (c - 48)"
  by (simp add: digitsValue_def)

lemma digitsValue_zeros: "digitsValue (ds @ replicate k 48) = digitsValue ds * 10 ^ k"
proof (induction k)
  case 0
  then show ?case by simp
next
  case (Suc k)
  have "ds @ replicate (Suc k) 48 = (ds @ replicate k 48) @ [48]"
    by (simp add: replicate_append_same)
  then show ?case by (simp only: digitsValue_snoc Suc) simp
qed

lemma convertNumber_overflow:
  assumes "cleanShorthand input = ds" "ds \<noteq> []" "\<forall>c\<in>set ds. isDigit c"
    and "2 ^ 1024 \<le> digitsValue ds"
  shows "parseShorthand input = Some PosInf" "convertNumber input = None"
proof -
  have "(2::rat) ^ 1024 \<le> of_nat (digitsValue ds)"
    using assms(4) by (metis of_nat_le_iff of_nat_numeral of_nat_power)
  then have "fl (decimalValue ds []) = PosInf"
    by (simp add: decimalValue_def fl_overflow)
  moreover have "parseShorthand input =
      Some (mulN (fl (decimalValue ds [])) (Fin (suffixMagnitude [])))"
    by (rule parseShorthand_grammar [where dot = "[]"])
      (use assms in \<open>simp_all add: isSuffix_def\<close>)
  ultimately show p: "parseShorthand input = Some PosInf"
    by (simp add: suffixMagnitude_def str_def)
  have "cleanShorthand (trim input) \<noteq> []" using assms(1,2) by simp
  then have "trim input \<noteq> []" by (auto simp: cleanShorthand_def)
  then show "convertNumber input = None"
    using p by (simp add: convertNumber_def Let_def isNaN_def numberToWords_PosInf)
qed

section \<open>Formatting and reading back\<close>

lemma digits_nonempty: "digits n \<noteq> []"
  by (subst digits.simps) simp

lemma digits_isDigit: "\<forall>c\<in>set (digits n). isDigit c"
proof (induction n rule: digits.induct)
  case (1 n)
  show ?case
  proof (cases "n < 10")
    case True
    then show ?thesis by (subst digits.simps) (simp add: isDigit_def)
  next
    case False
    have "n mod 10 < 10" by simp
    then have "isDigit (48 + n mod 10)" unfolding isDigit_def by linarith
    with False 1 show ?thesis by (subst digits.simps) simp
  qed
qed

lemma digitsValue_Nil [simp]: "digitsValue [] = 0"
  by (simp add: digitsValue_def)

lemma digitsValue_digits: "digitsValue (digits n) = n"
proof (induction n rule: digits.induct)
  case (1 n)
  show ?case
  proof (cases "n < 10")
    case True
    then show ?thesis by (subst digits.simps) (simp add: digitsValue_def)
  next
    case False
    with 1 have "digitsValue (digits (n div 10)) = n div 10" by simp
    with False show ?thesis
      by (subst digits.simps) (simp add: digitsValue_snoc)
  qed
qed

lemma isWhole_of_nat [simp]: "isWhole (of_nat m)"
  unfolding isWhole_def by (metis floor_of_nat of_int_of_nat_eq)

lemma toFixed_nat_0:
  assumes "k < 10 ^ 21"
  shows "toFixed (Fin (of_nat k)) 0 = digits k"
proof -
  have "(of_nat k :: rat) < 10 ^ 21"
    using assms by (metis of_nat_less_iff of_nat_numeral of_nat_power)
  moreover have "\<lfloor>(of_nat k :: rat) + 1 / 2\<rfloor> = int k"
    by (rule floor_unique) simp_all
  ultimately show ?thesis by (simp add: toFixed_def Let_def)
qed

lemma numberToString_int:
  assumes "m < 2 ^ 53"
  shows "numberToString (Fin (of_nat m)) = digits m"
    and "0 < m \<Longrightarrow> numberToString (Fin (- of_nat m)) = str ''-'' @ digits m"
proof -
  have "(of_nat m :: rat) \<le> 2 ^ 53"
    using assms by (metis less_imp_le of_nat_le_iff of_nat_numeral of_nat_power)
  then show "numberToString (Fin (of_nat m)) = digits m"
    "0 < m \<Longrightarrow> numberToString (Fin (- of_nat m)) = str ''-'' @ digits m"
    by (simp_all add: numberToString_def Let_def)
qed

lemma parseShorthand_digits:
  assumes "sign = [] \<or> sign = [45]" "isSuffix sfx"
  shows "parseShorthand (sign @ digits k @ sfx) =
     Some (mulN (fl (of_nat k)) (Fin (suffixMagnitude sfx)))"
proof -
  have keep: "filter (\<lambda>c. isDigit c \<or> c = 46 \<or> isSuffixLetter c) (digits k) = digits k"
    using digits_isDigit [of k] by (intro filter_True) blast
  have "cleanShorthand sfx = sfx"
    using assms(2) by (cases sfx) (auto simp: cleanShorthand_def isSuffix_def)
  moreover have "cleanShorthand sign = []"
    using assms(1) by (auto simp: cleanShorthand_def isDigit_def isSuffixLetter_def)
  ultimately have "cleanShorthand (sign @ digits k @ sfx) = digits k @ [] @ [] @ sfx"
    using keep by (simp add: cleanShorthand_def)
  then have "parseShorthand (sign @ digits k @ sfx) =
      Some (mulN (fl (decimalValue (digits k) [])) (Fin (suffixMagnitude sfx)))"
    using digits_nonempty digits_isDigit _ _ assms(2)
    by (rule parseShorthand_grammar) simp_all
  then show ?thesis by (simp add: decimalValue_def digitsValue_digits)
qed

lemma divN_exact:
  assumes "0 < s" "s dvd m" "m div s < 2 ^ 53"
  shows "divN (Fin (of_nat m)) (Fin (of_nat s)) = Fin (of_nat (m div s))"
proof -
  have "m = m div s * s" using assms(2) by simp
  then have "(of_nat m :: rat) = of_nat (m div s) * of_nat s"
    by (metis of_nat_mult)
  then have "(of_nat m :: rat) / of_nat s = of_nat (m div s)"
    using assms(1) by simp
  then have "fl (of_nat m / of_nat s) = Fin (of_nat (m div s))"
    by (simp only: fl_of_nat [OF assms(3)])
  then show ?thesis using assms(1) by simp
qed

lemma numberToShorthand_K:
  assumes "1000 \<le> m" "m < 1000000" "1000 dvd m"
  shows "numberToShorthand (Fin (of_nat m)) = digits (m div 1000) @ str ''K''"
    and "numberToShorthand (Fin (- of_nat m)) = str ''-'' @ digits (m div 1000) @ str ''K''"
proof -
  have k: "m div 1000 < 2 ^ 53" "m div 1000 < 10 ^ 21" using assms(2) by simp_all
  have d: "divN (Fin (of_nat m)) (Fin 1000) = Fin (of_nat (m div 1000))"
    using divN_exact [of 1000 m, OF _ assms(3) k(1)] by simp
  have r: "remN (Fin (of_nat m)) (Fin 1000) = Fin 0"
    using assms(3) by (simp add: remN_nat del: remN.simps)
  note t = toFixed_nat_0 [OF k(2)]
  show "numberToShorthand (Fin (of_nat m)) = digits (m div 1000) @ str ''K''"
    "numberToShorthand (Fin (- of_nat m)) = str ''-'' @ digits (m div 1000) @ str ''K''"
    using assms(1,2)
    by (simp_all add: numberToShorthand_def Let_def d r t del: divN.simps remN.simps)
qed

lemma numberToShorthand_M:
  assumes "1000000 \<le> m" "m < 1000000000" "1000000 dvd m"
  shows "numberToShorthand (Fin (of_nat m)) = digits (m div 1000000) @ str ''M''"
    and "numberToShorthand (Fin (- of_nat m)) = str ''-'' @ digits (m div 1000000) @ str ''M''"
proof -
  have k: "m div 1000000 < 2 ^ 53" "m div 1000000 < 10 ^ 21" using assms(2) by simp_all
  have d: "divN (Fin (of_nat m)) (Fin 1000000) = Fin (of_nat (m div 1000000))"
    using divN_exact [of 1000000 m, OF _ assms(3) k(1)] by simp
  have r: "remN (Fin (of_nat m)) (Fin 1000000) = Fin 0"
    using assms(3) by (simp add: remN_nat del: remN.simps)
  note t = toFixed_nat_0 [OF k(2)]
  show "numberToShorthand (Fin (of_nat m)) = digits (m div 1000000) @ str ''M''"
    "numberToShorthand (Fin (- of_nat m)) = str ''-'' @ digits (m div 1000000) @ str ''M''"
    using assms(1,2)
    by (simp_all add: numberToShorthand_def Let_def d r t del: divN.simps remN.simps)
qed

lemma numberToShorthand_B:
  assumes "1000000000 \<le> m" "m < 1000000000000" "1000000000 dvd m"
  shows "numberToShorthand (Fin (of_nat m)) = digits (m div 1000000000) @ str ''B''"
    and "numberToShorthand (Fin (- of_nat m)) =
      str ''-'' @ digits (m div 1000000000) @ str ''B''"
proof -
  have k: "m div 1000000000 < 2 ^ 53" "m div 1000000000 < 10 ^ 21" using assms(2) by simp_all
  have d: "divN (Fin (of_nat m)) (Fin 1000000000) = Fin (of_nat (m div 1000000000))"
    using divN_exact [of 1000000000 m, OF _ assms(3) k(1)] by simp
  have r: "remN (Fin (of_nat m)) (Fin 1000000000) = Fin 0"
    using assms(3) by (simp add: remN_nat del: remN.simps)
  note t = toFixed_nat_0 [OF k(2)]
  show "numberToShorthand (Fin (of_nat m)) = digits (m div 1000000000) @ str ''B''"
    "numberToShorthand (Fin (- of_nat m)) = str ''-'' @ digits (m div 1000000000) @ str ''B''"
    using assms(1,2)
    by (simp_all add: numberToShorthand_def Let_def d r t del: divN.simps remN.simps)
qed

lemma numberToShorthand_small:
  assumes "0 < m" "m < 1000"
  shows "numberToShorthand (Fin (of_nat m)) = digits m"
    and "numberToShorthand (Fin (- of_nat m)) = str ''-'' @ digits m"
proof -
  have "m < 2 ^ 53" using assms(2) by simp
  note ns = numberToString_int [OF this]
  show "numberToShorthand (Fin (of_nat m)) = digits m"
    "numberToShorthand (Fin (- of_nat m)) = str ''-'' @ digits m"
    using assms by (simp_all add: numberToShorthand_def Let_def ns)
qed

lemma mulN_back:
  assumes "s dvd m" "m < 2 ^ 53" "0 < s"
  shows "mulN (fl (of_nat (m div s))) (Fin (of_nat s)) = Fin (of_nat m)"
proof -
  have k: "m div s < 2 ^ 53" using assms(2) by (meson div_le_dividend le_less_trans)
  have "m div s * s = m" using assms(1) by simp
  then have "(of_nat (m div s) :: rat) * of_nat s = of_nat m" by (metis of_nat_mult)
  then have "mulN (Fin (of_nat (m div s))) (Fin (of_nat s)) = fl (of_nat m)" by simp
  then show ?thesis by (simp only: fl_of_nat [OF k] fl_of_nat [OF assms(2)])
qed

lemma round_trip_nat:
  assumes "m < 10 ^ 12" "applicableScale m dvd m"
  shows "parseShorthand (numberToShorthand (Fin (of_nat m))) = Some (Fin (of_nat m))"
    and "parseShorthand (numberToShorthand (Fin (- of_nat m))) = Some (Fin (of_nat m))"
proof -
  have m53: "m < 2 ^ 53" using assms(1) by simp
  have sK: "isSuffix (str ''K'')" "isSuffix (str ''M'')" "isSuffix (str ''B'')" "isSuffix []"
    by (simp_all add: isSuffix_def isSuffixLetter_def str_def)
  have mag: "suffixMagnitude (str ''K'') = of_nat 1000"
    "suffixMagnitude (str ''M'') = of_nat 1000000"
    "suffixMagnitude (str ''B'') = of_nat 1000000000" "suffixMagnitude [] = of_nat 1"
    by (simp_all add: suffixMagnitude_def str_def)
  have p: "parseShorthand (digits k @ sfx) =
      Some (mulN (fl (of_nat k)) (Fin (suffixMagnitude sfx)))"
    "parseShorthand (str ''-'' @ digits k @ sfx) =
      Some (mulN (fl (of_nat k)) (Fin (suffixMagnitude sfx)))"
    if "isSuffix sfx" for k sfx
    using parseShorthand_digits [of "[]" sfx k] parseShorthand_digits [of "[45]" sfx k] that
    by (simp_all add: str_def)
  consider "m = 0" | "0 < m" "m < 1000" | "1000 \<le> m" "m < 1000000"
    | "1000000 \<le> m" "m < 1000000000" | "1000000000 \<le> m"
    by linarith
  then have "parseShorthand (numberToShorthand (Fin (of_nat m))) = Some (Fin (of_nat m))
      \<and> parseShorthand (numberToShorthand (Fin (- of_nat m))) = Some (Fin (of_nat m))"
  proof cases
    case 1
    have "parseShorthand (str ''0'') = Some (Fin 0)"
      by (simp add: parse_eval str_def Let_def)
    with 1 show ?thesis by (simp add: numberToShorthand_def)
  next
    case 2
    have "mulN (fl (of_nat (m div 1))) (Fin (of_nat 1)) = Fin (of_nat m)"
      using m53 by (intro mulN_back) simp_all
    then show ?thesis
      using p [OF sK(4), of m] numberToShorthand_small [OF 2]
      by (simp add: mag del: mulN.simps of_nat_1 of_nat_Suc)
  next
    case 3
    then have dv: "1000 dvd m" using assms(2) by (simp add: applicableScale_def)
    then have "mulN (fl (of_nat (m div 1000))) (Fin (of_nat 1000)) = Fin (of_nat m)"
      using m53 by (intro mulN_back) simp_all
    then show ?thesis
      using p [OF sK(1), of "m div 1000"] numberToShorthand_K [OF 3 dv]
      by (simp add: mag del: mulN.simps of_nat_numeral)
  next
    case 4
    then have dv: "1000000 dvd m" using assms(2) by (simp add: applicableScale_def)
    then have "mulN (fl (of_nat (m div 1000000))) (Fin (of_nat 1000000)) = Fin (of_nat m)"
      using m53 by (intro mulN_back) simp_all
    then show ?thesis
      using p [OF sK(2), of "m div 1000000"] numberToShorthand_M [OF 4 dv]
      by (simp add: mag del: mulN.simps of_nat_numeral)
  next
    case 5
    then have dv: "1000000000 dvd m" using assms(2) by (simp add: applicableScale_def)
    then have "mulN (fl (of_nat (m div 1000000000))) (Fin (of_nat 1000000000)) = Fin (of_nat m)"
      using m53 by (intro mulN_back) simp_all
    then show ?thesis
      using p [OF sK(3), of "m div 1000000000"] numberToShorthand_B [OF 5 assms(1) [simplified] dv]
      by (simp add: mag del: mulN.simps of_nat_numeral)
  qed
  then show "parseShorthand (numberToShorthand (Fin (of_nat m))) = Some (Fin (of_nat m))"
    "parseShorthand (numberToShorthand (Fin (- of_nat m))) = Some (Fin (of_nat m))"
    by simp_all
qed

section \<open>The two invalid results\<close>

lemma convertNumber_empty:
  "trim input = [] \<Longrightarrow> convertNumber input =
     Some \<lparr>originalInput = input, numericValue = Fin 0, shorthandForm = str ''0'',
           wordsForm = str ''zero'', currency = None, isValid = False\<rparr>"
  by (simp add: convertNumber_def)

lemma convertNumber_NaN:
  assumes "trim input \<noteq> []" "decodeNumber input = NaN"
  shows "convertNumber input =
     Some \<lparr>originalInput = input, numericValue = Fin 0, shorthandForm = str ''0'',
           wordsForm = str ''invalid input'', currency = extractCurrency (trim input),
           isValid = False\<rparr>"
proof -
  have "(case parseShorthand (trim input) of Some v \<Rightarrow> v
         | None \<Rightarrow> parseFloat (cleanNumber (trim input))) = NaN"
    using assms(2) decodeNumber_trim [of input] by (simp add: decodeNumber_def)
  then show ?thesis
    using assms(1) by (simp add: convertNumber_def Let_def isNaN_def)
qed

section \<open>The invalid result and the currency symbol\<close>

text \<open>
  C1. Whenever \<open>convertNumber\<close> returns a result with \<open>isValid\<close> false, the result has
  \<open>numericValue\<close> 0 and \<open>shorthandForm\<close> \<open>"0"\<close>. Whether a currency symbol is present does
  not affect \<open>isValid\<close>: deleting every currency symbol from the input leaves \<open>isValid\<close>
  (and whether the call returns at all) unchanged.
\<close>

theorem convertNumber_invalid_sentinels:
  "(\<forall>r. convertNumber input = Some r \<and> \<not> isValid r \<longrightarrow>
        numericValue r = Fin 0 \<and> shorthandForm r = str ''0'')
   \<and> map_option isValid (convertNumber (removeCurrency input)) =
       map_option isValid (convertNumber input)"
proof -
  have "numericValue r = Fin 0 \<and> shorthandForm r = str ''0''"
    if "convertNumber input = Some r" "\<not> isValid r" for r
    using that by (auto simp: convertNumber_def Let_def split: if_splits option.splits)
  then show ?thesis by (simp add: isValid_removeCurrency)
qed

text \<open>
  The input \<open>"$"\<close> is invalid with the currency symbol and, the symbol deleted, invalid as
  the empty input.
\<close>

theorem convertNumber_invalid_sentinels_witness:
  "\<exists>r. convertNumber (str ''$'') = Some r \<and> \<not> isValid r \<and> currency r = Some (str ''$'')
       \<and> numericValue r = Fin 0 \<and> shorthandForm r = str ''0''
       \<and> map_option isValid (convertNumber (removeCurrency (str ''$''))) = Some False"
proof -
  have "convertNumber (str ''$'') =
      Some \<lparr>originalInput = str ''$'', numericValue = Fin 0, shorthandForm = str ''0'',
            wordsForm = str ''invalid input'', currency = Some (str ''$''), isValid = False\<rparr>"
    by (simp add: convert_eval parse_eval str_def Let_def)
  then show ?thesis
    using convertNumber_invalid_sentinels [of "str ''$''"] by simp
qed

text \<open>
  C10. Whenever \<open>convertNumber\<close> returns a result with \<open>isValid\<close> true, its \<open>numericValue\<close>
  is not NaN.
\<close>

theorem convertNumber_valid_not_NaN:
  "convertNumber input = Some r \<Longrightarrow> isValid r \<Longrightarrow> \<not> isNaN (numericValue r)"
  by (auto simp: convertNumber_def Let_def split: if_splits option.splits)

text \<open>The input \<open>"$1.5K"\<close> is valid, with the value 1500.\<close>

theorem convertNumber_valid_not_NaN_witness:
  "\<exists>r. convertNumber (str ''$1.5K'') = Some r \<and> isValid r \<and> numericValue r = Fin 1500
       \<and> \<not> isNaN (numericValue r)"
proof -
  have h: "convertNumber (str ''$1.5K'') =
      Some \<lparr>originalInput = str ''$1.5K'', numericValue = Fin 1500,
            shorthandForm = str ''$1.5K'',
            wordsForm = str ''one thousand five hundred dollars'',
            currency = Some (str ''$''), isValid = True\<rparr>"
    using numberToWords_nat [of 1500]
    by (simp add: convert_eval parse_eval format_eval words_eval truncToInt_def)
  show ?thesis
    using convertNumber_valid_not_NaN [OF h] h by simp
qed

lemma unshiftChunk_code:
  assumes "c < 1000"
  shows "unshiftChunk (Fin (of_nat c)) i parts =
     (if c \<noteq> 0 then codePhrase (i, c) # parts else parts)"
  using assms
  by (simp add: unshiftChunk_def Let_def convertHundreds_nat codePhrase_def)

lemma wordsLoop_code:
  assumes "n < 2 ^ 53"
  shows "wordsLoop (Fin (of_nat n)) i parts =
     Some (map codePhrase (filter (\<lambda>(i, c). c \<noteq> 0) (rev (enumerate i (chunks n)))) @ parts)"
  using assms
proof (induction n arbitrary: i parts rule: chunks.induct)
  case (1 n)
  show ?case
  proof (cases "n = 0")
    case True
    then show ?thesis by (subst wordsLoop.simps) simp
  next
    case False
    then have ch: "chunks n = n mod 1000 # chunks (n div 1000)" by (simp add: chunks_pos)
    have small: "n div 1000 < 2 ^ 53" using "1.prems" by (meson div_le_dividend le_less_trans)
    have "wordsLoop (Fin (of_nat n)) i parts =
        wordsLoop (Fin (of_nat (n div 1000))) (Suc i)
          (unshiftChunk (Fin (of_nat (n mod 1000))) i parts)"
      using False
      by (subst wordsLoop.simps)
        (simp add: floor_divN_1000 [OF "1.prems"] remN_nat del: divN.simps remN.simps)
    also have "\<dots> = Some (map codePhrase
          (filter (\<lambda>(i, c). c \<noteq> 0) (rev (enumerate (Suc i) (chunks (n div 1000)))))
        @ unshiftChunk (Fin (of_nat (n mod 1000))) i parts)"
      using False small by (rule "1.IH")
    also have "\<dots> = Some (map codePhrase
          (filter (\<lambda>(i, c). c \<noteq> 0) (rev (enumerate i (chunks n)))) @ parts)"
      by (simp add: ch unshiftChunk_code)
    finally show ?thesis .
  qed
qed

section \<open>The words of a number\<close>

text \<open>
  C7. The claim is that the words of a positive integer are the phrases of its non-zero
  base-1000 chunks, most significant first. The table \<open>SCALES\<close> has five entries and the
  loop has no case for a sixth chunk: \<open>numberToWords(1e15)\<close> is \<open>"one undefined"\<close>, and
  \<open>convertNumber("1000000000000000")\<close> returns it as its \<open>wordsForm\<close>. Above \<open>2^53\<close> the loop
  does not even see the base-1000 chunks: 141000000000000992 is a Number, its chunks are
  992, 0, 0, 0, 0, 141, but \<open>Math.floor(141000000000000992 / 1000)\<close> is 141000000000001
  (the quotient is rounded up), so the chunk that is exactly zero is spelt
  \<open>"one thousand"\<close>.
\<close>

theorem numberToWords_scale_overflow:
  "numberToWords (Fin (10 ^ 15)) = Some (str ''one undefined'')
   \<and> chunks (10 ^ 15) = [0, 0, 0, 0, 0, 1]
   \<and> map_option wordsForm (convertNumber (str ''1000000000000000'')) =
       Some (str ''one undefined'')
   \<and> fl 141000000000000992 = Fin 141000000000000992
   \<and> chunks 141000000000000992 = [992, 0, 0, 0, 0, 141]
   \<and> floorN (divN (Fin 141000000000000992) (Fin 1000)) = Fin 141000000000001
   \<and> numberToWords (Fin 141000000000000992) =
       Some (str ''one hundred forty-one undefined one thousand nine hundred ninety-two'')"
proof -
  have a: "numberToWords (Fin (10 ^ 15)) = Some (str ''one undefined'')"
    using wordsLoop_code [of "10 ^ 15" 0 "[]"]
    by (subst numberToWords.simps) (simp add: code_words_eval)
  have a': "numberToWords (Fin 1000000000000000) = Some (str ''one undefined'')"
    using a by simp
  have e: "map_option wordsForm (convertNumber (str ''1000000000000000'')) =
       Some (str ''one undefined'')"
    using a' by (simp add: convert_eval parse_eval format_eval str_def Let_def)
  have b: "chunks (10 ^ 15) = [0, 0, 0, 0, 0, 1]"
    "chunks 141000000000000992 = [992, 0, 0, 0, 0, 141]"
    by simp_all
  have c: "fl 141000000000000992 = Fin 141000000000000992"
    by (simp add: fl_eval del: fl_numeral)
  have d: "floorN (divN (Fin 141000000000000992) (Fin 1000)) = Fin 141000000000001"
    by (simp add: fl_eval)
  have r: "remN (Fin 141000000000000992) (Fin 1000) = Fin 992"
    by (simp add: truncToInt_def)
  have "wordsLoop (Fin 141000000000000992) 0 [] =
      wordsLoop (Fin 141000000000001) 1 (unshiftChunk (Fin 992) 0 [])"
    by (subst wordsLoop.simps) (simp add: d r del: divN.simps remN.simps)
  also have "\<dots> = Some [str ''one hundred forty-one undefined'', str ''one thousand'',
      str ''nine hundred ninety-two'']"
    using wordsLoop_code [of 141000000000001 1 "unshiftChunk (Fin 992) 0 []"]
      unshiftChunk_code [of 992 0 "[]"]
    by (simp add: code_words_eval)
  finally have "numberToWords (Fin 141000000000000992) =
       Some (str ''one hundred forty-one undefined one thousand nine hundred ninety-two'')"
    by (subst numberToWords.simps) (simp add: str_def)
  with a b c d e show ?thesis by (simp only: simp_thms)
qed

text \<open>
  Below \<open>10^15\<close>, the range of the scale table, the rule holds. \<open>numberToWords\<close> maps 0 to
  \<open>"zero"\<close> and a negative integer \<open>n\<close> to \<open>"negative "\<close> followed by the words of \<open>-n\<close>; for a
  positive integer below \<open>10^15\<close> the result is \<open>wordsOfNat\<close>: the phrases of the non-zero
  base-1000 chunks, most significant first, joined by single spaces. 1000000 gives
  \<open>"one million"\<close>, -5 gives \<open>"negative five"\<close>, and the words of 1000000001 do not contain
  \<open>"thousand"\<close>.
\<close>

lemma numberToWords_chunks:
  "numberToWords (Fin 0) = Some (str ''zero'')
   \<and> (\<forall>n::int. n < 0 \<longrightarrow>
         numberToWords (Fin (of_int n)) =
           map_option (\<lambda>w. str ''negative '' @ w) (numberToWords (Fin (of_int (- n)))))
   \<and> (\<forall>n::nat. 0 < n \<and> n < 10 ^ 15 \<longrightarrow> numberToWords (Fin (of_nat n)) = Some (wordsOfNat n))
   \<and> numberToWords (Fin 1000000) = Some (str ''one million'')
   \<and> numberToWords (Fin (- 5)) = Some (str ''negative five'')
   \<and> (\<exists>w. numberToWords (Fin 1000000001) = Some w \<and> \<not> includesStr w (str ''thousand''))"
proof -
  have zero: "numberToWords (Fin 0) = Some (str ''zero'')"
    by (subst numberToWords.simps) simp
  have neg: "numberToWords (Fin (of_int n)) =
      map_option (\<lambda>w. str ''negative '' @ w) (numberToWords (Fin (of_int (- n))))"
    if "n < 0" for n :: int
    using that numberToWords_negative [of "of_int n"] by simp
  have million: "numberToWords (Fin 1000000) = Some (str ''one million'')"
    using numberToWords_nat [of 1000000] by (simp add: words_eval)
  have five: "numberToWords (Fin (- 5)) = Some (str ''negative five'')"
    using numberToWords_nat [of 5] numberToWords_negative [of "- 5"] by (simp add: words_eval)
  have "numberToWords (Fin 1000000001) = Some (str ''one billion one'')"
    using numberToWords_nat [of 1000000001] by (simp add: words_eval)
  moreover have "\<not> includesStr (str ''one billion one'') (str ''thousand'')"
    by (simp add: str_def)
  ultimately have billion:
    "\<exists>w. numberToWords (Fin 1000000001) = Some w \<and> \<not> includesStr w (str ''thousand'')"
    by blast
  show ?thesis
    using zero neg million five billion by (simp add: numberToWords_nat)
qed

text \<open>
  C9. The claim is that the words of a non-integral number are the words of its integer
  part. The code does not truncate: the fraction stays in the chunk, \<open>convertHundreds\<close>
  reaches \<open>ONES[num]\<close> with a non-integral \<open>num\<close>, and the lookup yields \<open>undefined\<close>. At 1.5
  the result is \<open>"undefined"\<close>, not the \<open>"one"\<close> of the integer part; \<open>convertNumber("1.5")\<close>
  returns it as its \<open>wordsForm\<close>.
\<close>

theorem numberToWords_fraction:
  "numberToWords (Fin (3 / 2)) = Some (str ''undefined'')
   \<and> numberToWords (Fin 1) = Some (str ''one'')
   \<and> map_option wordsForm (convertNumber (str ''1.5'')) = Some (str ''undefined'')"
proof -
  have loop: "wordsLoop (Fin (3 / 2)) 0 [] = Some [str ''undefined'']"
    by (simp add: wordsLoop.simps [of "Fin (3 / 2)"] wordsLoop.simps [of "Fin 0"]
        floorN_fl_below_one unshiftChunk_def convertHundreds_def convertTens_def lookupStr_def
        isWhole_def truncToInt_def Let_def del: floorN.simps)
  have a: "numberToWords (Fin (3 / 2)) = Some (str ''undefined'')"
    by (subst numberToWords.simps) (simp add: loop)
  have b: "numberToWords (Fin 1) = Some (str ''one'')"
    using numberToWords_nat [of 1] by (simp add: words_eval)
  have "map_option wordsForm (convertNumber (str ''1.5'')) = Some (str ''undefined'')"
    using a by (simp add: convert_eval parse_eval format_eval str_def Let_def)
  with a b show ?thesis by simp
qed

section \<open>Inputs that overflow\<close>

text \<open>
  C2. The claim is that \<open>convertNumber\<close> returns a result for every input. A digit string
  whose value rounds to \<open>Infinity\<close> passes the \<open>isNaN\<close> check, and the loop of
  \<open>numberToWords\<close> never exits on \<open>Infinity\<close> (\<open>Infinity % 1000\<close> is NaN and
  \<open>Math.floor(Infinity / 1000)\<close> is \<open>Infinity\<close>). For the input \<open>1\<close> followed by 309
  zeros the call does not return.
\<close>

theorem convertNumber_diverges:
  "convertNumber (49 # replicate 309 48) = None"
proof -
  have v: "digitsValue (49 # replicate 309 48) = 10 ^ 309"
    using digitsValue_zeros [of "[49]" 309] by (simp add: digitsValue_def)
  have d: "\<forall>c\<in>set (49 # replicate 309 48). isDigit c"
    by (simp add: isDigit_def)
  then have "cleanShorthand (49 # replicate 309 48) = 49 # replicate 309 48"
    unfolding cleanShorthand_def by (intro filter_True) blast
  moreover have "(2::nat) ^ 1024 \<le> digitsValue (49 # replicate 309 48)"
    unfolding v by simp
  ultimately show ?thesis
    using d by (intro convertNumber_overflow(2)) simp_all
qed

text \<open>
  C8. The empty and the not-a-number inputs give the two invalid results (lemmas
  \<open>convertNumber_empty\<close> and \<open>convertNumber_NaN\<close>). The claim also covers an input that
  yields a number that is not finite: for \<open>$\<close> followed by \<open>1\<close> and 309 zeros the shorthand
  parser returns \<open>Infinity\<close>, the currency symbol is detected, and \<open>convertNumber\<close> returns
  no result at all, so not the invalid result with \<open>"invalid input"\<close>.
\<close>

theorem convertNumber_infinite_not_invalid:
  "parseShorthand (36 # 49 # replicate 309 48) = Some PosInf
   \<and> extractCurrency (trim (36 # 49 # replicate 309 48)) = Some (str ''$'')
   \<and> convertNumber (36 # 49 # replicate 309 48) = None"
proof -
  have v: "digitsValue (49 # replicate 309 48) = 10 ^ 309"
    using digitsValue_zeros [of "[49]" 309] by (simp add: digitsValue_def)
  have d: "\<forall>c\<in>set (49 # replicate 309 48). isDigit c"
    by (simp add: isDigit_def)
  then have "filter (\<lambda>c. isDigit c \<or> c = 46 \<or> isSuffixLetter c) (49 # replicate 309 48) =
      49 # replicate 309 48"
    by (intro filter_True) blast
  then have c: "cleanShorthand (36 # 49 # replicate 309 48) = 49 # replicate 309 48"
    by (simp add: cleanShorthand_def isDigit_def isSuffixLetter_def)
  have big: "(2::nat) ^ 1024 \<le> digitsValue (49 # replicate 309 48)"
    unfolding v by simp
  have "extractCurrency (trim (36 # 49 # replicate 309 48)) = Some (str ''$'')"
    by (simp add: trim_def isWhiteSpace_def extractCurrency_def CURRENCY_MAP_def str_def)
  moreover note convertNumber_overflow [OF c _ d big]
  ultimately show ?thesis by simp
qed

section \<open>The shorthand parser\<close>

text \<open>
  C4. When the cleaned input has the form of the grammar (digits, an optional point with
  further digits, an optional suffix letter), \<open>parseShorthand\<close> returns the decimal, as a
  Number, times the magnitude of the suffix: 1 without a suffix, \<open>1e3\<close> for K, \<open>1e6\<close> for M,
  \<open>1e9\<close> for B, \<open>1e12\<close> for T, in either case of the letter. In particular \<open>"2.5M"\<close> gives
  2500000, \<open>"1K"\<close> gives 1000, \<open>"1.5"\<close> gives 1.5 and \<open>"abc"\<close> gives no match.
\<close>

theorem parseShorthand_magnitude:
  "(\<forall>input ds dot fs sfx.
      cleanShorthand input = ds @ dot @ fs @ sfx \<and> ds \<noteq> []
      \<and> (\<forall>c\<in>set ds. isDigit c) \<and> (\<forall>c\<in>set fs. isDigit c)
      \<and> (dot = [46] \<or> (dot = [] \<and> fs = [])) \<and> isSuffix sfx \<longrightarrow>
      parseShorthand input =
        Some (mulN (fl (decimalValue ds fs)) (Fin (suffixMagnitude sfx))))
   \<and> suffixMagnitude [] = 1
   \<and> suffixMagnitude (str ''K'') = 10 ^ 3 \<and> suffixMagnitude (str ''k'') = 10 ^ 3
   \<and> suffixMagnitude (str ''M'') = 10 ^ 6 \<and> suffixMagnitude (str ''m'') = 10 ^ 6
   \<and> suffixMagnitude (str ''B'') = 10 ^ 9 \<and> suffixMagnitude (str ''b'') = 10 ^ 9
   \<and> suffixMagnitude (str ''T'') = 10 ^ 12 \<and> suffixMagnitude (str ''t'') = 10 ^ 12
   \<and> parseShorthand (str ''2.5M'') = Some (Fin 2500000)
   \<and> parseShorthand (str ''1K'') = Some (Fin 1000)
   \<and> parseShorthand (str ''1.5'') = Some (Fin (3 / 2))
   \<and> parseShorthand (str ''abc'') = None"
proof -
  have "parseShorthand (str ''2.5M'') = Some (Fin 2500000)"
    "parseShorthand (str ''1K'') = Some (Fin 1000)"
    "parseShorthand (str ''1.5'') = Some (Fin (3 / 2))"
    "parseShorthand (str ''abc'') = None"
    by (simp_all add: parse_eval str_def Let_def)
  moreover have "suffixMagnitude [] = 1"
    "suffixMagnitude (str ''K'') = 10 ^ 3" "suffixMagnitude (str ''k'') = 10 ^ 3"
    "suffixMagnitude (str ''M'') = 10 ^ 6" "suffixMagnitude (str ''m'') = 10 ^ 6"
    "suffixMagnitude (str ''B'') = 10 ^ 9" "suffixMagnitude (str ''b'') = 10 ^ 9"
    "suffixMagnitude (str ''T'') = 10 ^ 12" "suffixMagnitude (str ''t'') = 10 ^ 12"
    by (simp_all add: suffixMagnitude_def str_def)
  ultimately show ?thesis
    using parseShorthand_grammar by (simp only: simp_thms) blast
qed

text \<open>The general rule at \<open>"$42.7k"\<close>: 42.7, as a Number, times 1000 is 42700.\<close>

theorem parseShorthand_magnitude_witness:
  "cleanShorthand (str ''$42.7k'') = str ''42'' @ [46] @ str ''7'' @ str ''k''
   \<and> str ''42'' \<noteq> [] \<and> list_all isDigit (str ''42'') \<and> list_all isDigit (str ''7'')
   \<and> isSuffix (str ''k'')
   \<and> parseShorthand (str ''$42.7k'') =
       Some (mulN (fl (decimalValue (str ''42'') (str ''7''))) (Fin (suffixMagnitude (str ''k''))))
   \<and> decimalValue (str ''42'') (str ''7'') = 427 / 10
   \<and> suffixMagnitude (str ''k'') = 1000"
proof -
  have g: "cleanShorthand (str ''$42.7k'') = str ''42'' @ [46] @ str ''7'' @ str ''k''"
    "str ''42'' \<noteq> []" "\<forall>c\<in>set (str ''42''). isDigit c" "\<forall>c\<in>set (str ''7''). isDigit c"
    "isSuffix (str ''k'')"
    by (simp_all add: cleanShorthand_def str_def isDigit_def isSuffixLetter_def isSuffix_def)
  have "\<forall>input ds dot fs sfx.
      cleanShorthand input = ds @ dot @ fs @ sfx \<and> ds \<noteq> []
      \<and> (\<forall>c\<in>set ds. isDigit c) \<and> (\<forall>c\<in>set fs. isDigit c)
      \<and> (dot = [46] \<or> (dot = [] \<and> fs = [])) \<and> isSuffix sfx \<longrightarrow>
      parseShorthand input =
        Some (mulN (fl (decimalValue ds fs)) (Fin (suffixMagnitude sfx)))"
    using parseShorthand_magnitude by blast
  from this [THEN spec, THEN spec, THEN spec, THEN spec, THEN spec,
      of "str ''$42.7k''" "str ''42''" "[46]" "str ''7''" "str ''k''"] g
  have "parseShorthand (str ''$42.7k'') =
      Some (mulN (fl (decimalValue (str ''42'') (str ''7''))) (Fin (suffixMagnitude (str ''k''))))"
    by blast
  moreover have "decimalValue (str ''42'') (str ''7'') = 427 / 10"
    by (simp add: decimalValue_def digitsValue_def str_def)
  moreover have "suffixMagnitude (str ''k'') = 1000"
    by (simp add: suffixMagnitude_def str_def)
  ultimately show ?thesis using g by (simp only: list_all_iff simp_thms)
qed

text \<open>
  C5. A minus sign is removed by the cleaning, before the grammar is matched, so
  \<open>parseShorthand\<close> of \<open>-\<close> followed by \<open>s\<close> is \<open>parseShorthand\<close> of \<open>s\<close>. When \<open>s\<close> is a shorthand
  input (its cleaned form is digits, an optional point with further digits, an optional
  suffix letter), the value returned for \<open>-\<close> followed by \<open>s\<close> is the decimal, as a Number,
  times the magnitude of the suffix, with no sign, and it is not negative. No value the
  parser returns is negative; \<open>"-1.5K"\<close> gives 1500.
\<close>

theorem parseShorthand_unsigned:
  "(\<forall>s. cleanShorthand (45 # s) = cleanShorthand s)
   \<and> (\<forall>s. parseShorthand (45 # s) = parseShorthand s)
   \<and> (\<forall>s ds dot fs sfx.
        cleanShorthand s = ds @ dot @ fs @ sfx \<and> ds \<noteq> []
        \<and> (\<forall>c\<in>set ds. isDigit c) \<and> (\<forall>c\<in>set fs. isDigit c)
        \<and> (dot = [46] \<or> (dot = [] \<and> fs = [])) \<and> isSuffix sfx \<longrightarrow>
        parseShorthand (45 # s) =
          Some (mulN (fl (decimalValue ds fs)) (Fin (suffixMagnitude sfx)))
        \<and> geN (mulN (fl (decimalValue ds fs)) (Fin (suffixMagnitude sfx))) (Fin 0))
   \<and> (\<forall>s v. parseShorthand s = Some v \<longrightarrow> geN v (Fin 0))
   \<and> parseShorthand (str ''-1.5K'') = Some (Fin 1500)"
proof -
  have clean: "cleanShorthand (45 # s) = cleanShorthand s" for s
    by (simp add: cleanShorthand_def isDigit_def isSuffixLetter_def)
  have same: "parseShorthand (45 # s) = parseShorthand s" for s
    by (simp add: parseShorthand_def clean)
  have val: "parseShorthand (45 # s) =
        Some (mulN (fl (decimalValue ds fs)) (Fin (suffixMagnitude sfx)))
      \<and> geN (mulN (fl (decimalValue ds fs)) (Fin (suffixMagnitude sfx))) (Fin 0)"
    if "cleanShorthand s = ds @ dot @ fs @ sfx \<and> ds \<noteq> []
        \<and> (\<forall>c\<in>set ds. isDigit c) \<and> (\<forall>c\<in>set fs. isDigit c)
        \<and> (dot = [46] \<or> (dot = [] \<and> fs = [])) \<and> isSuffix sfx"
    for s ds dot fs sfx
  proof -
    from that have "cleanShorthand (45 # s) = ds @ dot @ fs @ sfx" "ds \<noteq> []"
      "\<forall>c\<in>set ds. isDigit c" "\<forall>c\<in>set fs. isDigit c"
      "dot = [46] \<or> (dot = [] \<and> fs = [])" "isSuffix sfx"
      by (simp_all add: clean)
    then have p: "parseShorthand (45 # s) =
        Some (mulN (fl (decimalValue ds fs)) (Fin (suffixMagnitude sfx)))"
      by (rule parseShorthand_grammar)
    then have "geN (mulN (fl (decimalValue ds fs)) (Fin (suffixMagnitude sfx))) (Fin 0)"
      by (rule parseShorthand_nonneg)
    with p show ?thesis by (rule conjI)
  qed
  have ex: "parseShorthand (str ''-1.5K'') = Some (Fin 1500)"
    by (simp add: parse_eval str_def Let_def)
  have nonneg: "\<forall>s v. parseShorthand s = Some v \<longrightarrow> geN v (Fin 0)"
    using parseShorthand_nonneg by blast
  from clean same val nonneg ex show ?thesis by (simp only: simp_thms) blast
qed

text \<open>
  The rule at \<open>"-1.5K"\<close>: the cleaned form of \<open>"1.5K"\<close> is \<open>1\<close>, a point, \<open>5\<close> and \<open>K\<close>; the value
  is 1.5 times 1000, that is 1500, which is not negative.
\<close>

theorem parseShorthand_unsigned_witness:
  "cleanShorthand (str ''1.5K'') = str ''1'' @ [46] @ str ''5'' @ str ''K''
   \<and> str ''1'' \<noteq> [] \<and> list_all isDigit (str ''1'') \<and> list_all isDigit (str ''5'')
   \<and> isSuffix (str ''K'')
   \<and> parseShorthand (45 # str ''1.5K'') =
       Some (mulN (fl (decimalValue (str ''1'') (str ''5''))) (Fin (suffixMagnitude (str ''K''))))
   \<and> geN (mulN (fl (decimalValue (str ''1'') (str ''5''))) (Fin (suffixMagnitude (str ''K''))))
       (Fin 0)
   \<and> decimalValue (str ''1'') (str ''5'') = 3 / 2
   \<and> suffixMagnitude (str ''K'') = 1000
   \<and> parseShorthand (45 # str ''1.5K'') = parseShorthand (str ''1.5K'')
   \<and> parseShorthand (str ''-1.5K'') = Some (Fin 1500)
   \<and> geN (Fin 1500) (Fin 0)"
proof -
  have g: "cleanShorthand (str ''1.5K'') = str ''1'' @ [46] @ str ''5'' @ str ''K''"
    "str ''1'' \<noteq> []" "\<forall>c\<in>set (str ''1''). isDigit c" "\<forall>c\<in>set (str ''5''). isDigit c"
    "isSuffix (str ''K'')"
    by (simp_all add: cleanShorthand_def str_def isDigit_def isSuffixLetter_def isSuffix_def)
  have same: "\<forall>s. parseShorthand (45 # s) = parseShorthand s"
    and val: "\<forall>s ds dot fs sfx.
        cleanShorthand s = ds @ dot @ fs @ sfx \<and> ds \<noteq> []
        \<and> (\<forall>c\<in>set ds. isDigit c) \<and> (\<forall>c\<in>set fs. isDigit c)
        \<and> (dot = [46] \<or> (dot = [] \<and> fs = [])) \<and> isSuffix sfx \<longrightarrow>
        parseShorthand (45 # s) =
          Some (mulN (fl (decimalValue ds fs)) (Fin (suffixMagnitude sfx)))
        \<and> geN (mulN (fl (decimalValue ds fs)) (Fin (suffixMagnitude sfx))) (Fin 0)"
    and nonneg: "\<forall>s v. parseShorthand s = Some v \<longrightarrow> geN v (Fin 0)"
    and ex: "parseShorthand (str ''-1.5K'') = Some (Fin 1500)"
    using parseShorthand_unsigned by blast+
  from val [THEN spec, THEN spec, THEN spec, THEN spec, THEN spec,
      of "str ''1.5K''" "str ''1''" "[46]" "str ''5''" "str ''K''"] g
  have v: "parseShorthand (45 # str ''1.5K'') =
       Some (mulN (fl (decimalValue (str ''1'') (str ''5''))) (Fin (suffixMagnitude (str ''K''))))"
    "geN (mulN (fl (decimalValue (str ''1'') (str ''5''))) (Fin (suffixMagnitude (str ''K''))))
       (Fin 0)"
    by blast+
  have d: "decimalValue (str ''1'') (str ''5'') = 3 / 2"
    by (simp add: decimalValue_def digitsValue_def str_def)
  have m: "suffixMagnitude (str ''K'') = 1000"
    by (simp add: suffixMagnitude_def str_def)
  from nonneg [THEN spec, THEN spec, of "str ''-1.5K''" "Fin 1500"] ex
  have n: "geN (Fin 1500) (Fin 0)" by blast
  have s: "parseShorthand (45 # str ''1.5K'') = parseShorthand (str ''1.5K'')"
    using same by blast
  from g v d m s ex n show ?thesis by (simp only: list_all_iff simp_thms)
qed

section \<open>The shorthand formatter\<close>

text \<open>
  C6. The claim is that a value at or above a scale is printed as its quotient by the
  scale with no decimals when the division is exact and with one decimal place otherwise.
  \<open>toFixed\<close> prints a quotient of \<open>1e21\<close> or more as \<open>toString\<close> does, in exponent notation,
  and a quotient that is not finite by its name. The Number \<open>1e33\<close>, which is
  999999999999999945575230987042816, has the scale \<open>1e12\<close> and the remainder 230987042816,
  so the division is not exact; the quotient is \<open>1e21\<close> and the result is \<open>"1e+21T"\<close>, where
  one decimal place is \<open>"1000000000000000000000.0T"\<close>. \<open>Infinity\<close> gives \<open>"InfinityT"\<close>. The
  examples of the claim hold: 0 gives \<open>"0"\<close>, 1500 gives \<open>"1.5K"\<close>, 1000 gives \<open>"1K"\<close>, 999
  gives \<open>"999"\<close> and -2500000 gives \<open>"-2.5M"\<close>.
\<close>

theorem numberToShorthand_exponent:
  "fl (10 ^ 33) = Fin 999999999999999945575230987042816
   \<and> remN (Fin 999999999999999945575230987042816) (Fin 1000000000000) = Fin 230987042816
   \<and> divN (Fin 999999999999999945575230987042816) (Fin 1000000000000) = Fin (10 ^ 21)
   \<and> numberToShorthand (Fin 999999999999999945575230987042816) = str ''1e+21T''
   \<and> numberToShorthand PosInf = str ''InfinityT''
   \<and> numberToShorthand (Fin 0) = str ''0''
   \<and> numberToShorthand (Fin 1500) = str ''1.5K''
   \<and> numberToShorthand (Fin 1000) = str ''1K''
   \<and> numberToShorthand (Fin 999) = str ''999''
   \<and> numberToShorthand (Fin (- 2500000)) = str ''-2.5M''"
proof -
  have e1: "fl (10 ^ 33) = Fin 999999999999999945575230987042816"
    by (simp add: fl_eval)
  have e2: "divN (Fin 999999999999999945575230987042816) (Fin 1000000000000) = Fin (10 ^ 21)"
    by (simp add: fl_eval)
  have e3: "remN (Fin 999999999999999945575230987042816) (Fin 1000000000000) =
      Fin 230987042816"
    by (simp add: truncToInt_def)
  have e4: "fl (10 ^ 21) = Fin (10 ^ 21)"
    by (simp add: fl_eval)
  have e5: "fl (2 * 10 ^ 21) \<noteq> Fin (10 ^ 21)"
    by (simp add: fl_eval)
  have e6: "numberToString (Fin (10 ^ 21)) = str ''1e+21''"
    using e4 e5
    by (simp add: numberToString_def isWhole_def positiveToString_def shortestDecimal_def
        digitCandidates_def decimalExponent_def Let_def str_def upt_rec del: fl_numeral)
  have e7: "numberToShorthand (Fin 999999999999999945575230987042816) = str ''1e+21T''"
    using e2 e3 e6
    by (simp add: numberToShorthand_def toFixed_def Let_def str_def
        del: divN.simps remN.simps)
  have e8: "numberToShorthand PosInf = str ''InfinityT''"
    by (simp add: numberToShorthand_def toFixed_def numberToString_def Let_def str_def)
  have ex: "numberToShorthand (Fin 0) = str ''0''"
    "numberToShorthand (Fin 1500) = str ''1.5K''"
    "numberToShorthand (Fin 1000) = str ''1K''"
    "numberToShorthand (Fin 999) = str ''999''"
    "numberToShorthand (Fin (- 2500000)) = str ''-2.5M''"
    by (simp_all add: format_eval str_def Let_def truncToInt_def)
  from e1 e2 e3 e7 e8 ex show ?thesis by (simp only: simp_thms)
qed

section \<open>The round trip\<close>

text \<open>
  C3, as stated, fails in two ways. For a negative integer: the shorthand of -1000 is
  \<open>"-1K"\<close>, and the parser, which drops the minus sign, reads it as 1000. For a multiple of
  a scale that is not the largest one the integer reaches: 1234000 is a multiple of
  \<open>10^3\<close>, but its shorthand is taken at \<open>10^6\<close> with one decimal place, \<open>"1.2M"\<close>, which is
  read back as 1200000.
\<close>

theorem shorthand_round_trip_fails:
  "\<bar>- 1000\<bar> < (10 ^ 12 :: int) \<and> (10 ^ 3 :: int) \<le> \<bar>- 1000\<bar> \<and> (10 ^ 3 :: int) dvd - 1000
   \<and> numberToShorthand (Fin (of_int (- 1000))) = str ''-1K''
   \<and> parseShorthand (numberToShorthand (Fin (of_int (- 1000)))) = Some (Fin 1000)
   \<and> parseShorthand (numberToShorthand (Fin (of_int (- 1000)))) \<noteq> Some (Fin (of_int (- 1000)))
   \<and> \<bar>1234000\<bar> < (10 ^ 12 :: int) \<and> (10 ^ 3 :: int) \<le> \<bar>1234000\<bar>
   \<and> (10 ^ 3 :: int) dvd 1234000
   \<and> applicableScale (nat \<bar>1234000\<bar>) = 10 ^ 6 \<and> \<not> (10 ^ 6 :: int) dvd 1234000
   \<and> numberToShorthand (Fin (of_int 1234000)) = str ''1.2M''
   \<and> parseShorthand (numberToShorthand (Fin (of_int 1234000))) = Some (Fin 1200000)
   \<and> parseShorthand (numberToShorthand (Fin (of_int 1234000))) \<noteq> Some (Fin (of_int 1234000))"
proof -
  have a: "numberToShorthand (Fin (- 1000)) = str ''-1K''"
    by (simp add: format_eval str_def Let_def truncToInt_def)
  have b: "parseShorthand (str ''-1K'') = Some (Fin 1000)"
    by (simp add: parse_eval str_def Let_def)
  have d: "divN (Fin 1234000) (Fin 1000000) = Fin (694680242521899 / 562949953421312)"
    by (simp add: fl_eval)
  have r: "remN (Fin 1234000) (Fin 1000000) = Fin 234000"
    by (simp add: truncToInt_def)
  have t: "toFixed (Fin (694680242521899 / 562949953421312)) (Suc 0) = str ''1.2''"
    by (simp add: toFixed_def Let_def str_def)
  have c: "numberToShorthand (Fin 1234000) = str ''1.2M''"
    by (simp add: numberToShorthand_def Let_def d r t del: divN.simps remN.simps)
      (simp add: str_def)
  have f: "fl (6 / 5) = Fin (5404319552844595 / 4503599627370496)"
    by (simp add: fl_eval)
  have m: "fl (84442493013196796875 / 70368744177664) = Fin 1200000"
    by (simp add: fl_eval)
  have p: "parseFloat (str ''1.2'') = fl (6 / 5)"
    by (simp add: parseFloat_def unsignedLiteral_def exponentPart_def digitsValue_def
        isDigit_def isWhiteSpace_def str_def Let_def)
  have ms: "matchShorthand (cleanShorthand (str ''1.2M'')) = Some (str ''1.2'', str ''M'')"
    by (simp add: cleanShorthand_def matchShorthand_def isDigit_def isSuffixLetter_def str_def
        Let_def)
  have k: "map_of multipliers (str ''M'') = Some (Fin 1000000)"
    by (simp add: multipliers_def str_def)
  have v: "mulN (parseFloat (str ''1.2'')) (Fin 1000000) = Fin 1200000"
    by (simp add: p f m del: fl_numeral)
  have n: "parseFloat (str ''1.2'') \<noteq> NaN"
    by (simp add: p f)
  have e: "parseShorthand (str ''1.2M'') = Some (Fin 1200000)"
    unfolding parseShorthand_def ms
    by (simp add: Let_def isNaN_def k v n del: mulN.simps) (simp add: str_def)
  from a b c e show ?thesis by (simp add: applicableScale_def)
qed

text \<open>
  C3, amended. For every integer \<open>n\<close> with \<open>1000 \<le> |n| < 1e12\<close> that is a multiple of the
  largest of the scales \<open>10^3\<close>, \<open>10^6\<close>, \<open>10^9\<close> that \<open>|n|\<close> reaches, parsing the shorthand
  of \<open>n\<close> gives \<open>|n|\<close>: the round trip returns \<open>n\<close> itself exactly when \<open>n\<close> is not negative.
\<close>

theorem shorthand_round_trip:
  fixes n :: int
  assumes "1000 \<le> \<bar>n\<bar>" "\<bar>n\<bar> < 10 ^ 12" "int (applicableScale (nat \<bar>n\<bar>)) dvd n"
  shows "parseShorthand (numberToShorthand (Fin (of_int n))) = Some (Fin (of_int \<bar>n\<bar>))"
proof -
  define m where "m = nat \<bar>n\<bar>"
  have m: "m < 10 ^ 12" using assms(2) by (simp add: m_def nat_less_iff)
  have "int (applicableScale m) dvd int m"
    using assms(3) by (simp add: m_def)
  then have dv: "applicableScale m dvd m" by (simp only: int_dvd_int_iff)
  have abs: "(of_int \<bar>n\<bar> :: rat) = of_nat m" by (simp add: m_def)
  show ?thesis
  proof (cases "0 \<le> n")
    case True
    then have "(of_int n :: rat) = of_nat m" by (simp add: m_def)
    then show ?thesis using round_trip_nat(1) [OF m dv] by (simp only: abs)
  next
    case False
    then have "(of_int n :: rat) = - of_nat m" by (simp add: m_def)
    then show ?thesis using round_trip_nat(2) [OF m dv] by (simp only: abs)
  qed
qed

text \<open>The amended rule at 2000000 (\<open>"2M"\<close>) and at -3000 (\<open>"-3K"\<close>, read back as 3000).\<close>

theorem shorthand_round_trip_witness:
  "(1000 :: int) \<le> \<bar>2000000\<bar> \<and> \<bar>2000000\<bar> < (10 ^ 12 :: int)
   \<and> int (applicableScale (nat \<bar>2000000\<bar>)) dvd 2000000
   \<and> parseShorthand (numberToShorthand (Fin (of_int 2000000))) = Some (Fin 2000000)
   \<and> (1000 :: int) \<le> \<bar>- 3000\<bar> \<and> \<bar>- 3000\<bar> < (10 ^ 12 :: int)
   \<and> int (applicableScale (nat \<bar>- 3000\<bar>)) dvd (- 3000)
   \<and> parseShorthand (numberToShorthand (Fin (of_int (- 3000)))) = Some (Fin 3000)"
proof -
  have a: "(1000 :: int) \<le> \<bar>2000000\<bar>" "\<bar>2000000\<bar> < (10 ^ 12 :: int)"
    "int (applicableScale (nat \<bar>2000000\<bar>)) dvd 2000000"
    and b: "(1000 :: int) \<le> \<bar>- 3000\<bar>" "\<bar>- 3000\<bar> < (10 ^ 12 :: int)"
    "int (applicableScale (nat \<bar>- 3000\<bar>)) dvd (- 3000)"
    by (simp_all add: applicableScale_def)
  from shorthand_round_trip [OF a] shorthand_round_trip [OF b] a b
  show ?thesis by simp
qed

end
